theory Spec2Isabelle
  imports Main "HOL-Library.Word" "HOL-Library.AList"
begin

section \<open>JavaScript strings and values\<close>

text \<open>
  A JavaScript string is a sequence of 16-bit code units. Literals of the source are
  written through \<open>asc\<close>, which reads an ASCII literal as code units.
\<close>

type_synonym jstring = "16 word list"

definition asc :: "string \<Rightarrow> jstring" where
  "asc s = map (\<lambda>c. of_nat (of_char c)) s"

text \<open>
  A \<open>Date\<close> object holds a time value: an integral number of milliseconds since the
  epoch, or NaN (an "Invalid Date").
\<close>

datatype jsdate = ValidDate int | InvalidDate

text \<open>
  The values that reach the storage adapter: what \<open>JSON.parse\<close> can return, plus
  \<open>undefined\<close> and \<open>Date\<close> objects. An object is the list of its own properties in
  creation order. A number is kept as the text of its literal: the code under study
  inspects no number beyond its type.
\<close>

datatype jsval =
    JUndefined
  | JNull
  | JBool bool
  | JNum jstring
  | JStr jstring
  | JDate jsdate
  | JArr "jsval list"
  | JObj "(jstring \<times> jsval) list"

fun typeof :: "jsval \<Rightarrow> string" where
  "typeof JUndefined = ''undefined''"
| "typeof JNull = ''object''"
| "typeof (JBool _) = ''boolean''"
| "typeof (JNum _) = ''number''"
| "typeof (JStr _) = ''string''"
| "typeof (JDate _) = ''object''"
| "typeof (JArr _) = ''object''"
| "typeof (JObj _) = ''object''"

fun isArray :: "jsval \<Rightarrow> bool" where
  "isArray (JArr _) = True"
| "isArray _ = False"

fun instanceofDate :: "jsval \<Rightarrow> bool" where
  "instanceofDate (JDate _) = True"
| "instanceofDate _ = False"

text \<open>
  Property read \<open>item.k\<close> for the five names the adapter reads. None of them is a
  property of \<open>Object.prototype\<close>, \<open>Array.prototype\<close> or \<open>Date.prototype\<close>, so the
  read finds an own property of a plain object or yields \<open>undefined\<close>. (A read on
  \<open>null\<close> or \<open>undefined\<close> would throw; every read of the source stands behind the
  guards \<open>typeof item === 'object' && item !== null\<close>.)
\<close>

fun get_prop :: "jsval \<Rightarrow> jstring \<Rightarrow> jsval" where
  "get_prop (JObj kvs) k = (case map_of kvs k of Some v \<Rightarrow> v | None \<Rightarrow> JUndefined)"
| "get_prop _ k = JUndefined"

text \<open>
  Object spread \<open>{...item}\<close>: the own enumerable properties in order. Only plain
  objects are spread by the code under study.
\<close>

fun spread :: "jsval \<Rightarrow> (jstring \<times> jsval) list" where
  "spread (JObj kvs) = kvs"
| "spread _ = []"

section \<open>JSON text\<close>

abbreviation c_quote :: "16 word" where "c_quote \<equiv> 0x22"
abbreviation c_backslash :: "16 word" where "c_backslash \<equiv> 0x5C"
abbreviation c_lbracket :: "16 word" where "c_lbracket \<equiv> 0x5B"
abbreviation c_rbracket :: "16 word" where "c_rbracket \<equiv> 0x5D"
abbreviation c_lbrace :: "16 word" where "c_lbrace \<equiv> 0x7B"
abbreviation c_rbrace :: "16 word" where "c_rbrace \<equiv> 0x7D"
abbreviation c_comma :: "16 word" where "c_comma \<equiv> 0x2C"
abbreviation c_colon :: "16 word" where "c_colon \<equiv> 0x3A"

subsection \<open>Hexadecimal escapes\<close>

definition hexdig :: "nat \<Rightarrow> 16 word" where
  "hexdig n = (if n < 10 then of_nat (48 + n) else of_nat (87 + n))"

definition hex4 :: "16 word \<Rightarrow> jstring" where
  "hex4 c = [hexdig (unat c div 4096 mod 16), hexdig (unat c div 256 mod 16),
             hexdig (unat c div 16 mod 16), hexdig (unat c mod 16)]"

definition unhex :: "16 word \<Rightarrow> nat option" where
  "unhex c =
     (let u = unat c in
      if 48 \<le> u \<and> u \<le> 57 then Some (u - 48)
      else if 97 \<le> u \<and> u \<le> 102 then Some (u - 87)
      else if 65 \<le> u \<and> u \<le> 70 then Some (u - 55)
      else None)"

definition unhex4 :: "16 word \<Rightarrow> 16 word \<Rightarrow> 16 word \<Rightarrow> 16 word \<Rightarrow> 16 word option" where
  "unhex4 h1 h2 h3 h4 =
     (case (unhex h1, unhex h2, unhex h3, unhex h4) of
        (Some a, Some b, Some c, Some d) \<Rightarrow> Some (of_nat (((a * 16 + b) * 16 + c) * 16 + d))
      | _ \<Rightarrow> None)"

subsection \<open>Writing a string: QuoteJSONString\<close>

definition is_lead :: "16 word \<Rightarrow> bool" where
  "is_lead c = (0xD800 \<le> c \<and> c \<le> 0xDBFF)"

definition is_trail :: "16 word \<Rightarrow> bool" where
  "is_trail c = (0xDC00 \<le> c \<and> c \<le> 0xDFFF)"

text \<open>
  One code point that is a single code unit: the two-character escapes, a \<open>\u\<close> escape
  for the other control characters and for a lone surrogate, the unit itself otherwise.
\<close>

definition quote_unit :: "16 word \<Rightarrow> jstring" where
  "quote_unit c =
     (if c = 0x08 then [c_backslash, 0x62]
      else if c = 0x09 then [c_backslash, 0x74]
      else if c = 0x0A then [c_backslash, 0x6E]
      else if c = 0x0C then [c_backslash, 0x66]
      else if c = 0x0D then [c_backslash, 0x72]
      else if c = c_quote then [c_backslash, c_quote]
      else if c = c_backslash then [c_backslash, c_backslash]
      else if c < 0x20 \<or> is_lead c \<or> is_trail c then [c_backslash, 0x75] @ hex4 c
      else [c])"

text \<open>A surrogate pair is one code point and is written as it is.\<close>

fun quote_body :: "jstring \<Rightarrow> jstring" where
  "quote_body [] = []"
| "quote_body [c] = quote_unit c"
| "quote_body (c # d # cs) =
     (if is_lead c \<and> is_trail d then c # d # quote_body cs
      else quote_unit c @ quote_body (d # cs))"

definition quote :: "jstring \<Rightarrow> jstring" where
  "quote s = [c_quote] @ quote_body s @ [c_quote]"

subsection \<open>Reading JSON text: the grammar of JSON.parse\<close>

definition is_ws :: "16 word \<Rightarrow> bool" where
  "is_ws c = (c = 0x20 \<or> c = 0x09 \<or> c = 0x0A \<or> c = 0x0D)"

definition skip_ws :: "jstring \<Rightarrow> jstring" where
  "skip_ws s = dropWhile is_ws s"

definition is_digit :: "16 word \<Rightarrow> bool" where
  "is_digit c = (0x30 \<le> c \<and> c \<le> 0x39)"

definition unescape :: "16 word \<Rightarrow> 16 word option" where
  "unescape e =
     (if e = c_quote then Some c_quote
      else if e = c_backslash then Some c_backslash
      else if e = 0x2F then Some 0x2F
      else if e = 0x62 then Some 0x08
      else if e = 0x66 then Some 0x0C
      else if e = 0x6E then Some 0x0A
      else if e = 0x72 then Some 0x0D
      else if e = 0x74 then Some 0x09
      else None)"

definition cons_result :: "16 word \<Rightarrow> (jstring \<times> jstring) option \<Rightarrow> (jstring \<times> jstring) option" where
  "cons_result c r = (case r of None \<Rightarrow> None | Some (s, rest) \<Rightarrow> Some (c # s, rest))"

text \<open>
  The characters of a string after its opening quote, up to and including the closing
  quote: the string read and the text that follows, or \<open>None\<close> for a syntax error.
\<close>

fun parse_string :: "jstring \<Rightarrow> (jstring \<times> jstring) option" where
  "parse_string [] = None"
| "parse_string (c # cs) =
    (if c = c_quote then Some ([], cs)
     else if c = c_backslash then
       (case cs of
          [] \<Rightarrow> None
        | e # r \<Rightarrow>
            if e = 0x75 then
              (case r of
                 h1 # h2 # h3 # h4 # r' \<Rightarrow>
                   (case unhex4 h1 h2 h3 h4 of
                      None \<Rightarrow> None
                    | Some u \<Rightarrow> cons_result u (parse_string r'))
               | _ \<Rightarrow> None)
            else
              (case unescape e of
                 None \<Rightarrow> None
               | Some u \<Rightarrow> cons_result u (parse_string r)))
     else if c < 0x20 then None
     else cons_result c (parse_string cs))"

text \<open>
  A number literal: \<open>-? (0 | [1-9][0-9]*) (. [0-9]+)? ([eE] [+-]? [0-9]+)?\<close>.
\<close>

definition parse_sign :: "jstring \<Rightarrow> jstring \<times> jstring" where
  "parse_sign s = (case s of c # r \<Rightarrow> if c = 0x2D then ([c], r) else ([], s) | [] \<Rightarrow> ([], s))"

definition parse_int :: "jstring \<Rightarrow> (jstring \<times> jstring) option" where
  "parse_int s =
     (case s of
        [] \<Rightarrow> None
      | d # r \<Rightarrow>
          if d = 0x30 then Some ([d], r)
          else if is_digit d then Some (d # takeWhile is_digit r, dropWhile is_digit r)
          else None)"

definition parse_frac :: "jstring \<Rightarrow> (jstring \<times> jstring) option" where
  "parse_frac s =
     (case s of
        c # r \<Rightarrow>
          if c = 0x2E then
            (if takeWhile is_digit r = [] then None
             else Some (c # takeWhile is_digit r, dropWhile is_digit r))
          else Some ([], s)
      | [] \<Rightarrow> Some ([], s))"

definition parse_exp_sign :: "jstring \<Rightarrow> jstring \<times> jstring" where
  "parse_exp_sign s =
     (case s of c # r \<Rightarrow> if c = 0x2B \<or> c = 0x2D then ([c], r) else ([], s) | [] \<Rightarrow> ([], s))"

definition parse_exp :: "jstring \<Rightarrow> (jstring \<times> jstring) option" where
  "parse_exp s =
     (case s of
        c # r \<Rightarrow>
          if c = 0x65 \<or> c = 0x45 then
            (case parse_exp_sign r of
               (sg, r') \<Rightarrow>
                 if takeWhile is_digit r' = [] then None
                 else Some (c # sg @ takeWhile is_digit r', dropWhile is_digit r'))
          else Some ([], s)
      | [] \<Rightarrow> Some ([], s))"

definition parse_number :: "jstring \<Rightarrow> (jstring \<times> jstring) option" where
  "parse_number s =
     (case parse_sign s of
        (sg, s1) \<Rightarrow>
          (case parse_int s1 of
             None \<Rightarrow> None
           | Some (ds, s2) \<Rightarrow>
               (case parse_frac s2 of
                  None \<Rightarrow> None
                | Some (fr, s3) \<Rightarrow>
                    (case parse_exp s3 of
                       None \<Rightarrow> None
                     | Some (ex, s4) \<Rightarrow> Some (sg @ ds @ fr @ ex, s4)))))"

fun strip_prefix :: "jstring \<Rightarrow> jstring \<Rightarrow> jstring option" where
  "strip_prefix [] s = Some s"
| "strip_prefix (p # ps) [] = None"
| "strip_prefix (p # ps) (c # cs) = (if p = c then strip_prefix ps cs else None)"

text \<open>
  An object is built property by property: a repeated key overwrites the value and keeps
  the place of its first occurrence.
\<close>

definition build_object :: "(jstring \<times> jsval) list \<Rightarrow> (jstring \<times> jsval) list" where
  "build_object ps = foldl (\<lambda>al (k, v). AList.update k v al) [] ps"

text \<open>
  The recursive descent over values. The first argument bounds the number of nested
  calls; \<open>None\<close> is a syntax error. \<open>parse_elements\<close> reads the elements of a non-empty
  array after its opening bracket, \<open>parse_members\<close> the members of a non-empty object
  after its opening brace; both expect the text to start at a token.
\<close>

fun parse_value :: "nat \<Rightarrow> jstring \<Rightarrow> (jsval \<times> jstring) option"
  and parse_elements :: "nat \<Rightarrow> jstring \<Rightarrow> (jsval list \<times> jstring) option"
  and parse_members :: "nat \<Rightarrow> jstring \<Rightarrow> ((jstring \<times> jsval) list \<times> jstring) option"
where
  "parse_value 0 s = None"
| "parse_value (Suc n) s =
     (case s of
        [] \<Rightarrow> None
      | c # cs \<Rightarrow>
          if c = c_quote then
            (case parse_string cs of None \<Rightarrow> None | Some (str, r) \<Rightarrow> Some (JStr str, r))
          else if c = c_lbracket then
            (case skip_ws cs of
               [] \<Rightarrow> None
             | d # r \<Rightarrow>
                 if d = c_rbracket then Some (JArr [], r)
                 else (case parse_elements n (d # r) of
                         None \<Rightarrow> None
                       | Some (vs, r') \<Rightarrow> Some (JArr vs, r')))
          else if c = c_lbrace then
            (case skip_ws cs of
               [] \<Rightarrow> None
             | d # r \<Rightarrow>
                 if d = c_rbrace then Some (JObj [], r)
                 else (case parse_members n (d # r) of
                         None \<Rightarrow> None
                       | Some (ps, r') \<Rightarrow> Some (JObj (build_object ps), r')))
          else if c = 0x74 then
            (case strip_prefix (asc ''true'') s of None \<Rightarrow> None | Some r \<Rightarrow> Some (JBool True, r))
          else if c = 0x66 then
            (case strip_prefix (asc ''false'') s of None \<Rightarrow> None | Some r \<Rightarrow> Some (JBool False, r))
          else if c = 0x6E then
            (case strip_prefix (asc ''null'') s of None \<Rightarrow> None | Some r \<Rightarrow> Some (JNull, r))
          else
            (case parse_number s of None \<Rightarrow> None | Some (lit, r) \<Rightarrow> Some (JNum lit, r)))"
| "parse_elements 0 s = None"
| "parse_elements (Suc n) s =
     (case parse_value n s of
        None \<Rightarrow> None
      | Some (v, r) \<Rightarrow>
          (case skip_ws r of
             [] \<Rightarrow> None
           | c # r' \<Rightarrow>
               if c = c_comma then
                 (case parse_elements n (skip_ws r') of
                    None \<Rightarrow> None
                  | Some (vs, r'') \<Rightarrow> Some (v # vs, r''))
               else if c = c_rbracket then Some ([v], r')
               else None))"
| "parse_members 0 s = None"
| "parse_members (Suc n) s =
     (case s of
        [] \<Rightarrow> None
      | q # s1 \<Rightarrow>
          if q \<noteq> c_quote then None
          else
            (case parse_string s1 of
               None \<Rightarrow> None
             | Some (k, s2) \<Rightarrow>
                 (case skip_ws s2 of
                    [] \<Rightarrow> None
                  | c # s3 \<Rightarrow>
                      if c \<noteq> c_colon then None
                      else
                        (case parse_value n (skip_ws s3) of
                           None \<Rightarrow> None
                         | Some (v, s4) \<Rightarrow>
                             (case skip_ws s4 of
                                [] \<Rightarrow> None
                              | d # s5 \<Rightarrow>
                                  if d = c_comma then
                                    (case parse_members n (skip_ws s5) of
                                       None \<Rightarrow> None
                                     | Some (ps, s6) \<Rightarrow> Some ((k, v) # ps, s6))
                                  else if d = c_rbrace then Some ([(k, v)], s5)
                                  else None)))))"

text \<open>
  \<open>JSON.parse\<close>: one value between optional white space, then the end of the text. The
  exception it throws on any other text is \<open>None\<close> here. Every nested call consumes at
  least one character, so the bound below is never reached (\<open>JSON_parse_bound\<close>: a
  larger bound gives the same result).
\<close>

definition JSON_parse :: "jstring \<Rightarrow> jsval option" where
  "JSON_parse s =
     (case parse_value (2 * length s + 2) (skip_ws s) of
        None \<Rightarrow> None
      | Some (v, r) \<Rightarrow> if skip_ws r = [] then Some v else None)"

section \<open>The platform: dates, the session store, the console\<close>

text \<open>
  \<open>Date.prototype.toISOString\<close> and the string form of the \<open>Date\<close> constructor
  belong to the platform; outside the ISO format the constructor's result is left to the
  implementation. Both are parameters of the model.
\<close>

record platform =
  toISOString :: "int \<Rightarrow> jstring"
  Date_parse :: "jstring \<Rightarrow> jsdate"

text \<open>
  A thrown value, as far as a handler of the source looks at it: whether it is an
  \<open>Error\<close>, and its \<open>name\<close> and message.
\<close>

datatype thrown = Thrown (instanceofError: bool) (name: jstring) (err_message: jstring)

text \<open>The exception of \<open>JSON.parse\<close>; its message is engine-specific and left empty.\<close>

definition SyntaxError :: thrown where
  "SyntaxError = Thrown True (asc ''SyntaxError'') []"

datatype call = GetItem jstring | SetItem jstring jstring | RemoveItem jstring

datatype logarg = LogStr jstring | LogErr thrown

text \<open>
  The world outside the adapter: the contents of \<open>window.sessionStorage\<close>, the calls
  made to it so far, the arguments of every \<open>console.warn\<close>, and \<open>faults\<close>, which says
  for a history of calls whether the next call throws, and what. \<open>faults\<close> is the
  store's behaviour (a full quota, a disabled store); the adapter does not change it.
\<close>

record world =
  storage :: "jstring \<rightharpoonup> jstring"
  faults :: "call list \<Rightarrow> call \<Rightarrow> thrown option"
  calls :: "call list"
  console :: "logarg list list"

definition getItem :: "jstring \<Rightarrow> world \<Rightarrow> (thrown + jstring option) \<times> world" where
  "getItem k w =
     (case faults w (calls w) (GetItem k) of
        Some e \<Rightarrow> (Inl e, w\<lparr>calls := calls w @ [GetItem k]\<rparr>)
      | None \<Rightarrow> (Inr (storage w k), w\<lparr>calls := calls w @ [GetItem k]\<rparr>))"

definition setItem :: "jstring \<Rightarrow> jstring \<Rightarrow> world \<Rightarrow> (thrown + unit) \<times> world" where
  "setItem k v w =
     (case faults w (calls w) (SetItem k v) of
        Some e \<Rightarrow> (Inl e, w\<lparr>calls := calls w @ [SetItem k v]\<rparr>)
      | None \<Rightarrow> (Inr (), w\<lparr>storage := (storage w)(k \<mapsto> v), calls := calls w @ [SetItem k v]\<rparr>))"

definition removeItem :: "jstring \<Rightarrow> world \<Rightarrow> (thrown + unit) \<times> world" where
  "removeItem k w =
     (case faults w (calls w) (RemoveItem k) of
        Some e \<Rightarrow> (Inl e, w\<lparr>calls := calls w @ [RemoveItem k]\<rparr>)
      | None \<Rightarrow> (Inr (), w\<lparr>storage := (storage w)(k := None), calls := calls w @ [RemoveItem k]\<rparr>))"

definition console_warn :: "logarg list \<Rightarrow> world \<Rightarrow> world" where
  "console_warn args w = w\<lparr>console := console w @ [args]\<rparr>"

section \<open>The storage adapter (utils/sessionStorage)\<close>

definition STORAGE_KEY :: jstring where
  "STORAGE_KEY = asc ''todos''"

subsection \<open>isValidTodos\<close>

text \<open>The predicate passed to \<open>data.every\<close>.\<close>

definition isValidTodos_item :: "jsval \<Rightarrow> bool" where
  "isValidTodos_item item =
     (typeof item = ''object'' \<and>
      item \<noteq> JNull \<and>
      typeof (get_prop item (asc ''id'')) = ''string'' \<and>
      typeof (get_prop item (asc ''title'')) = ''string'' \<and>
      typeof (get_prop item (asc ''description'')) = ''string'' \<and>
      typeof (get_prop item (asc ''completed'')) = ''boolean'' \<and>
      (instanceofDate (get_prop item (asc ''createdAt'')) \<or>
       typeof (get_prop item (asc ''createdAt'')) = ''string''))"

fun elements :: "jsval \<Rightarrow> jsval list" where
  "elements (JArr xs) = xs"
| "elements _ = []"

definition isValidTodos :: "jsval \<Rightarrow> bool" where
  "isValidTodos data =
     (if \<not> isArray data then False
      else list_all isValidTodos_item (elements data))"

subsection \<open>The Todo type and JSON.stringify at that type\<close>

text \<open>
  The record type \<open>Todo\<close> of the source (types/Todo); \<open>createdAt\<close> is a \<open>Date\<close>.
  \<open>js_of_todo\<close> is the object a \<open>Todo\<close> is at run time, its properties in the order in
  which \<open>addTodo\<close> creates them.
\<close>

record Todo =
  todo_id :: jstring
  title :: jstring
  description :: jstring
  completed :: bool
  createdAt :: jsdate

definition js_of_todo :: "Todo \<Rightarrow> jsval" where
  "js_of_todo t =
     JObj [(asc ''id'', JStr (todo_id t)),
           (asc ''title'', JStr (title t)),
           (asc ''description'', JStr (description t)),
           (asc ''completed'', JBool (completed t)),
           (asc ''createdAt'', JDate (createdAt t))]"

text \<open>
  \<open>Date.prototype.toJSON\<close> yields \<open>null\<close> for an invalid date and the ISO string
  otherwise; the string is then quoted like any other.
\<close>

definition stringify_date :: "platform \<Rightarrow> jsdate \<Rightarrow> jstring" where
  "stringify_date P d =
     (case d of ValidDate t \<Rightarrow> quote (toISOString P t) | InvalidDate \<Rightarrow> asc ''null'')"

definition stringify_bool :: "bool \<Rightarrow> jstring" where
  "stringify_bool b = (if b then asc ''true'' else asc ''false'')"

definition member :: "string \<Rightarrow> jstring \<Rightarrow> jstring" where
  "member k v = quote (asc k) @ [c_colon] @ v"

definition stringify_todo :: "platform \<Rightarrow> Todo \<Rightarrow> jstring" where
  "stringify_todo P t =
     [c_lbrace] @ member ''id'' (quote (todo_id t)) @
     [c_comma] @ member ''title'' (quote (title t)) @
     [c_comma] @ member ''description'' (quote (description t)) @
     [c_comma] @ member ''completed'' (stringify_bool (completed t)) @
     [c_comma] @ member ''createdAt'' (stringify_date P (createdAt t)) @
     [c_rbrace]"

fun join_commas :: "jstring list \<Rightarrow> jstring" where
  "join_commas [] = []"
| "join_commas [x] = x"
| "join_commas (x # y # ys) = x @ [c_comma] @ join_commas (y # ys)"

definition JSON_stringify :: "platform \<Rightarrow> Todo list \<Rightarrow> jstring" where
  "JSON_stringify P todos = [c_lbracket] @ join_commas (map (stringify_todo P) todos) @ [c_rbracket]"

subsection \<open>loadTodos\<close>

text \<open>The function mapped over the validated array.\<close>

definition loadTodos_item :: "platform \<Rightarrow> jsval \<Rightarrow> jsval" where
  "loadTodos_item P todo =
     JObj (AList.update (asc ''createdAt'')
             (case get_prop todo (asc ''createdAt'') of
                JStr s \<Rightarrow> JDate (Date_parse P s)
              | v \<Rightarrow> v)
             (spread todo))"

text \<open>The body of the \<open>try\<close> block: \<open>Inl\<close> is an exception on its way to the handler.\<close>

definition loadTodos_try :: "platform \<Rightarrow> world \<Rightarrow> (thrown + jsval list) \<times> world" where
  "loadTodos_try P w =
     (case getItem STORAGE_KEY w of
        (Inl e, w1) \<Rightarrow> (Inl e, w1)
      | (Inr stored, w1) \<Rightarrow>
          (case stored of
             None \<Rightarrow> (Inr [], w1)
           | Some text \<Rightarrow>
               if text = [] then (Inr [], w1)
               else
                 (case JSON_parse text of
                    None \<Rightarrow> (Inl SyntaxError, w1)
                  | Some parsed \<Rightarrow>
                      if \<not> isValidTodos parsed then
                        (case removeItem STORAGE_KEY
                                (console_warn
                                   [LogStr (asc ''Invalid todos data in sessionStorage, clearing and using empty array'')]
                                   w1) of
                           (Inl e, w3) \<Rightarrow> (Inl e, w3)
                         | (Inr u, w3) \<Rightarrow> (Inr [], w3))
                      else (Inr (map (loadTodos_item P) (elements parsed)), w1))))"

text \<open>
  The handler: warn with the exception, try to clear the key and ignore a failure of
  that, return the empty array. The result is an outcome: \<open>Inr\<close> a returned value,
  \<open>Inl\<close> an exception that leaves the function.
\<close>

definition loadTodos :: "platform \<Rightarrow> world \<Rightarrow> (thrown + jsval list) \<times> world" where
  "loadTodos P w =
     (case loadTodos_try P w of
        (Inr todos, w1) \<Rightarrow> (Inr todos, w1)
      | (Inl e, w1) \<Rightarrow>
          (case removeItem STORAGE_KEY
                  (console_warn [LogStr (asc ''Failed to load todos from sessionStorage:''), LogErr e] w1) of
             (r, w3) \<Rightarrow> (Inr [], w3)))"

subsection \<open>saveTodos\<close>

record save_result =
  success :: bool
  error :: "jstring option"

definition quota_message :: jstring where
  "quota_message =
     asc ''Storage quota exceeded '' @ [0x2013] @ asc '' your latest changes may not be saved.''"

definition generic_message :: jstring where
  "generic_message = asc ''Failed to save todos to storage.''"

text \<open>
  The argument of \<open>saveTodos\<close> at run time. Its declared type is \<open>Todo[]\<close>, and a
  value of that type holds strings, booleans and dates only, which \<open>JSON.stringify\<close>
  writes without an exception. Types are erased, so the function can also be handed a value
  outside the type; such a value is given by what \<open>JSON.stringify\<close> does with it: the
  exception it throws (on a cyclic structure, a \<open>BigInt\<close>, a throwing \<open>toJSON\<close>), or
  the text that reaches \<open>setItem\<close>.
\<close>

datatype argument = Typed "Todo list" | Untyped "thrown + jstring"

definition JSON_stringify_call :: "platform \<Rightarrow> argument \<Rightarrow> thrown + jstring" where
  "JSON_stringify_call P x =
     (case x of Typed todos \<Rightarrow> Inr (JSON_stringify P todos) | Untyped r \<Rightarrow> r)"

text \<open>
  The body of the \<open>try\<close> block: the serialisation and the write both stand inside it, and
  an exception of either is on its way to the handler.
\<close>

definition saveTodos_try :: "platform \<Rightarrow> argument \<Rightarrow> world \<Rightarrow> (thrown + save_result) \<times> world" where
  "saveTodos_try P todos w =
     (case JSON_stringify_call P todos of
        Inl e \<Rightarrow> (Inl e, w)
      | Inr serialized \<Rightarrow>
          (case setItem STORAGE_KEY serialized w of
             (Inl e, w1) \<Rightarrow> (Inl e, w1)
           | (Inr u, w1) \<Rightarrow> (Inr \<lparr>success = True, error = None\<rparr>, w1)))"

definition saveTodos :: "platform \<Rightarrow> argument \<Rightarrow> world \<Rightarrow> (thrown + save_result) \<times> world" where
  "saveTodos P todos w =
     (case saveTodos_try P todos w of
        (Inr r, w1) \<Rightarrow> (Inr r, w1)
      | (Inl e, w1) \<Rightarrow>
          if instanceofError e \<and> name e = asc ''QuotaExceededError'' then
            (Inr \<lparr>success = False, error = Some quota_message\<rparr>,
             console_warn [LogStr (asc ''SessionStorage quota exceeded, continuing with in-memory state'')] w1)
          else
            (Inr \<lparr>success = False, error = Some generic_message\<rparr>,
             console_warn [LogStr (asc ''Failed to save todos to sessionStorage:''), LogErr e] w1))"

text \<open>
  What \<open>JSON.parse\<close> returns on the text \<open>JSON.stringify\<close> writes for a \<open>Todo\<close>: the
  date has become its ISO string, an invalid date \<open>null\<close>.
\<close>

definition todo_toJSON :: "platform \<Rightarrow> Todo \<Rightarrow> jsval" where
  "todo_toJSON P t =
     JObj [(asc ''id'', JStr (todo_id t)),
           (asc ''title'', JStr (title t)),
           (asc ''description'', JStr (description t)),
           (asc ''completed'', JBool (completed t)),
           (asc ''createdAt'',
              (case createdAt t of ValidDate ti \<Rightarrow> JStr (toISOString P ti) | InvalidDate \<Rightarrow> JNull))]"

text \<open>
  The typed view of a loaded object, as the type guard \<open>data is Todo[]\<close> lets the
  provider read it: the five fields of \<open>Todo\<close>. Properties beyond the five are not part
  of the type and are not tracked by the provider's model.
\<close>

fun str_of :: "jsval \<Rightarrow> jstring option" where
  "str_of (JStr s) = Some s"
| "str_of _ = None"

fun bool_of :: "jsval \<Rightarrow> bool option" where
  "bool_of (JBool b) = Some b"
| "bool_of _ = None"

fun date_of :: "jsval \<Rightarrow> jsdate option" where
  "date_of (JDate d) = Some d"
| "date_of _ = None"

definition todo_of_js :: "jsval \<Rightarrow> Todo option" where
  "todo_of_js v =
     (case str_of (get_prop v (asc ''id'')) of
        None \<Rightarrow> None
      | Some i \<Rightarrow>
          (case str_of (get_prop v (asc ''title'')) of
             None \<Rightarrow> None
           | Some t \<Rightarrow>
               (case str_of (get_prop v (asc ''description'')) of
                  None \<Rightarrow> None
                | Some d \<Rightarrow>
                    (case bool_of (get_prop v (asc ''completed'')) of
                       None \<Rightarrow> None
                     | Some c \<Rightarrow>
                         (case date_of (get_prop v (asc ''createdAt'')) of
                            None \<Rightarrow> None
                          | Some dt \<Rightarrow>
                              Some \<lparr>todo_id = i, title = t, description = d,
                                    completed = c, createdAt = dt\<rparr>)))))"

definition as_Todos :: "jsval list \<Rightarrow> Todo list" where
  "as_Todos vs = List.map_filter todo_of_js vs"

section \<open>The notification sink (components/Toast)\<close>

datatype severity = Error | Warning | Success | Info

record ToastMessage =
  toast_id :: jstring
  message :: jstring
  toast_type :: severity
  duration :: "int option"

text \<open>
  \<open>Number.prototype.toString\<close> on an integral clock reading: the decimal digits, with
  a minus sign below zero.
\<close>

fun digits :: "nat \<Rightarrow> jstring" where
  "digits n = (if n < 10 then [of_nat (48 + n)] else digits (n div 10) @ [of_nat (48 + n mod 10)])"

declare digits.simps [simp del]

definition Number_toString :: "int \<Rightarrow> jstring" where
  "Number_toString n = (if n < 0 then 0x2D # digits (nat (- n)) else digits (nat n))"

text \<open>
  The state of \<open>ToastProvider\<close>: the active notifications, and the timers set by
  \<open>setTimeout\<close> that have not fired yet, each with the id its callback removes and its
  delay.
\<close>

record toast_state =
  toasts :: "ToastMessage list"
  timers :: "(jstring \<times> int) list"

text \<open>
  \<open>showToast\<close>; \<open>now\<close> is the value \<open>Date.now()\<close> returns in this call. The optional
  arguments default to \<open>'info'\<close> and \<open>5000\<close>.
\<close>

definition showToast :: "int \<Rightarrow> jstring \<Rightarrow> severity option \<Rightarrow> int option \<Rightarrow> toast_state \<Rightarrow> toast_state" where
  "showToast now msg ty dur st =
     (let ty' = (case ty of None \<Rightarrow> Info | Some t \<Rightarrow> t);
          dur' = (case dur of None \<Rightarrow> 5000 | Some d \<Rightarrow> d);
          i = Number_toString now;
          newToast = \<lparr>toast_id = i, message = msg, toast_type = ty', duration = Some dur'\<rparr>
      in st\<lparr>toasts := toasts st @ [newToast], timers := timers st @ [(i, dur')]\<rparr>)"

definition dismissToast :: "jstring \<Rightarrow> toast_state \<Rightarrow> toast_state" where
  "dismissToast i st = st\<lparr>toasts := filter (\<lambda>toast. toast_id toast \<noteq> i) (toasts st)\<rparr>"

text \<open>The \<open>k\<close>-th pending timer fires: its callback removes the toasts with its id.\<close>

definition timer_fires :: "nat \<Rightarrow> toast_state \<Rightarrow> toast_state" where
  "timer_fires k st =
     (if k < length (timers st) then
        st\<lparr>toasts := filter (\<lambda>toast. toast_id toast \<noteq> fst (timers st ! k)) (toasts st),
           timers := take k (timers st) @ drop (Suc k) (timers st)\<rparr>
      else st)"

section \<open>The Todo state owner (contexts/TodoContext)\<close>

text \<open>
  \<open>Partial<Todo>\<close>: each field is absent or present with a value of its type.
\<close>

record updates =
  upd_id :: "jstring option"
  upd_title :: "jstring option"
  upd_description :: "jstring option"
  upd_completed :: "bool option"
  upd_createdAt :: "jsdate option"

text \<open>The shallow merge \<open>{ ...todo, ...updates }\<close>.\<close>

definition merge :: "Todo \<Rightarrow> updates \<Rightarrow> Todo" where
  "merge todo u =
     \<lparr>todo_id = (case upd_id u of Some v \<Rightarrow> v | None \<Rightarrow> todo_id todo),
      title = (case upd_title u of Some v \<Rightarrow> v | None \<Rightarrow> title todo),
      description = (case upd_description u of Some v \<Rightarrow> v | None \<Rightarrow> description todo),
      completed = (case upd_completed u of Some v \<Rightarrow> v | None \<Rightarrow> completed todo),
      createdAt = (case upd_createdAt u of Some v \<Rightarrow> v | None \<Rightarrow> createdAt todo)\<rparr>"

subsection \<open>The arrays the four operations pass to setTodos\<close>

text \<open>
  \<open>uuid\<close> is the value \<open>uuidv4()\<close> returns in this call and \<open>now\<close> the time value of
  \<open>new Date()\<close>.
\<close>

definition addTodo_array :: "jstring \<Rightarrow> int \<Rightarrow> Todo list \<Rightarrow> jstring \<Rightarrow> jstring \<Rightarrow> Todo list" where
  "addTodo_array uuid now todos ttl descr =
     todos @ [\<lparr>todo_id = uuid, title = ttl, description = descr, completed = False,
               createdAt = ValidDate now\<rparr>]"

definition editTodo_array :: "Todo list \<Rightarrow> jstring \<Rightarrow> updates \<Rightarrow> Todo list" where
  "editTodo_array todos i u = map (\<lambda>todo. if todo_id todo = i then merge todo u else todo) todos"

definition toggleTodoCompletion_array :: "Todo list \<Rightarrow> jstring \<Rightarrow> Todo list" where
  "toggleTodoCompletion_array todos i =
     map (\<lambda>todo. if todo_id todo = i then todo\<lparr>completed := \<not> completed todo\<rparr> else todo) todos"

definition deleteTodo_array :: "Todo list \<Rightarrow> jstring \<Rightarrow> Todo list" where
  "deleteTodo_array todos i = filter (\<lambda>todo. todo_id todo \<noteq> i) todos"

subsection \<open>The component: state, render and effect\<close>

text \<open>
  The state cell of \<open>useState\<close> holds an array: its contents and its identity
  (\<open>todos_ref\<close>). \<open>map\<close>, \<open>filter\<close> and the array literal each create a new array, with
  the identity \<open>next_ref\<close>. \<open>effect_deps\<close> is the \<open>todos\<close> dependency the effect saw when
  it last ran (\<open>None\<close> before the first render); \<open>showToast\<close>, the other dependency, is
  memoised with no dependencies and never changes.
\<close>

record provider =
  todos :: "Todo list"
  todos_ref :: nat
  next_ref :: nat
  effect_deps :: "nat option"

record app =
  world_of :: world
  toast :: toast_state
  prov :: provider
  uncaught :: "thrown option"

text \<open>
  The body of the effect: \<open>saveTodos(todos)\<close>, and a warning toast when the result is a
  failure with a non-empty message. \<open>now\<close> is the clock reading \<open>showToast\<close> takes.
\<close>

definition persist_effect :: "platform \<Rightarrow> int \<Rightarrow> app \<Rightarrow> app" where
  "persist_effect P now a =
     (case saveTodos P (Typed (todos (prov a))) (world_of a) of
        (Inl e, w1) \<Rightarrow> a\<lparr>world_of := w1, uncaught := Some e\<rparr>
      | (Inr result, w1) \<Rightarrow>
          (case error result of
             Some msg \<Rightarrow>
               if \<not> success result \<and> msg \<noteq> [] then
                 a\<lparr>world_of := w1, toast := showToast now msg (Some Warning) None (toast a)\<rparr>
               else a\<lparr>world_of := w1\<rparr>
           | None \<Rightarrow> a\<lparr>world_of := w1\<rparr>))"

text \<open>
  A render is committed: the effect runs on the first render and whenever the identity
  of \<open>todos\<close> differs from the one it last saw.
\<close>

definition commit :: "platform \<Rightarrow> int \<Rightarrow> app \<Rightarrow> app" where
  "commit P now a =
     (if effect_deps (prov a) = Some (todos_ref (prov a)) then a
      else persist_effect P now (a\<lparr>prov := (prov a)\<lparr>effect_deps := Some (todos_ref (prov a))\<rparr>\<rparr>))"

text \<open>
  \<open>setTodos\<close> with an array: no render when the array is the one the cell holds
  (\<open>Object.is\<close>), a render with the new array otherwise.
\<close>

definition setTodos :: "platform \<Rightarrow> int \<Rightarrow> nat \<times> Todo list \<Rightarrow> app \<Rightarrow> app" where
  "setTodos P now arr a =
     (if fst arr = todos_ref (prov a) then a
      else commit P now (a\<lparr>prov := (prov a)\<lparr>todos := snd arr, todos_ref := fst arr\<rparr>\<rparr>))"

text \<open>A new array: the next identity is taken.\<close>

definition new_array :: "Todo list \<Rightarrow> app \<Rightarrow> (nat \<times> Todo list) \<times> app" where
  "new_array xs a = ((next_ref (prov a), xs), a\<lparr>prov := (prov a)\<lparr>next_ref := Suc (next_ref (prov a))\<rparr>\<rparr>)"

text \<open>
  The first render: the initialiser of \<open>useState\<close> calls \<open>loadTodos\<close>, whose array is
  new; then the render is committed.
\<close>

definition TodoProvider :: "platform \<Rightarrow> int \<Rightarrow> toast_state \<Rightarrow> world \<Rightarrow> app" where
  "TodoProvider P now ts w =
     (case loadTodos P w of
        (Inl e, w1) \<Rightarrow>
          \<lparr>world_of = w1, toast = ts,
           prov = \<lparr>todos = [], todos_ref = 0, next_ref = 1, effect_deps = None\<rparr>,
           uncaught = Some e\<rparr>
      | (Inr loaded, w1) \<Rightarrow>
          commit P now
            \<lparr>world_of = w1, toast = ts,
             prov = \<lparr>todos = as_Todos loaded, todos_ref = 0, next_ref = 1, effect_deps = None\<rparr>,
             uncaught = None\<rparr>)"

text \<open>
  The four operations, each followed by the render it causes. \<open>enow\<close> is the clock
  reading of that render's effect.
\<close>

definition addTodo :: "platform \<Rightarrow> jstring \<Rightarrow> int \<Rightarrow> int \<Rightarrow> jstring \<Rightarrow> jstring \<Rightarrow> app \<Rightarrow> app" where
  "addTodo P uuid now enow ttl descr a =
     (case new_array (addTodo_array uuid now (todos (prov a)) ttl descr) a of
        (arr, a') \<Rightarrow> setTodos P enow arr a')"

definition editTodo :: "platform \<Rightarrow> int \<Rightarrow> jstring \<Rightarrow> updates \<Rightarrow> app \<Rightarrow> app" where
  "editTodo P enow i u a =
     (case new_array (editTodo_array (todos (prov a)) i u) a of
        (arr, a') \<Rightarrow> setTodos P enow arr a')"

definition toggleTodoCompletion :: "platform \<Rightarrow> int \<Rightarrow> jstring \<Rightarrow> app \<Rightarrow> app" where
  "toggleTodoCompletion P enow i a =
     (case new_array (toggleTodoCompletion_array (todos (prov a)) i) a of
        (arr, a') \<Rightarrow> setTodos P enow arr a')"

definition deleteTodo :: "platform \<Rightarrow> int \<Rightarrow> jstring \<Rightarrow> app \<Rightarrow> app" where
  "deleteTodo P enow i a =
     (case new_array (deleteTodo_array (todos (prov a)) i) a of
        (arr, a') \<Rightarrow> setTodos P enow arr a')"

section \<open>Predicates used in the statements\<close>

text \<open>
  The shape of one record, field by field, as the specification lists it.
\<close>

definition field_is_string :: "(jstring \<times> jsval) list \<Rightarrow> string \<Rightarrow> bool" where
  "field_is_string kvs k = (case map_of kvs (asc k) of Some (JStr s) \<Rightarrow> True | _ \<Rightarrow> False)"

definition field_is_boolean :: "(jstring \<times> jsval) list \<Rightarrow> string \<Rightarrow> bool" where
  "field_is_boolean kvs k = (case map_of kvs (asc k) of Some (JBool b) \<Rightarrow> True | _ \<Rightarrow> False)"

definition field_is_date :: "(jstring \<times> jsval) list \<Rightarrow> string \<Rightarrow> bool" where
  "field_is_date kvs k = (case map_of kvs (asc k) of Some (JDate d) \<Rightarrow> True | _ \<Rightarrow> False)"

text \<open>
  The component between events: the effect has seen the array the state cell holds, and
  that array is older than the next one to be created. The first render leaves the
  component so, and so does each operation.
\<close>

definition settled :: "app \<Rightarrow> bool" where
  "settled a =
     (effect_deps (prov a) = Some (todos_ref (prov a)) \<and> todos_ref (prov a) < next_ref (prov a))"

section \<open>Values used in examples\<close>

definition no_updates :: updates where
  "no_updates =
     \<lparr>upd_id = None, upd_title = None, upd_description = None,
      upd_completed = None, upd_createdAt = None\<rparr>"

definition ex_todo :: "string \<Rightarrow> bool \<Rightarrow> Todo" where
  "ex_todo i c =
     \<lparr>todo_id = asc i, title = asc ''Existing'', description = asc ''From storage'',
      completed = c, createdAt = ValidDate 1672531200000\<rparr>"

definition ex_six_fields :: jsval where
  "ex_six_fields =
     JObj [(asc ''id'', JStr (asc ''1'')),
           (asc ''title'', JStr (asc ''Existing'')),
           (asc ''description'', JStr (asc ''From storage'')),
           (asc ''completed'', JBool False),
           (asc ''createdAt'', JStr (asc ''2023-01-01T00:00:00.000Z'')),
           (asc ''extra'', JBool True)]"

definition ex_two_fields :: jsval where
  "ex_two_fields = JObj [(asc ''id'', JStr (asc ''2'')), (asc ''title'', JStr (asc ''Invalid Todo''))]"

definition no_toasts :: toast_state where
  "no_toasts = \<lparr>toasts = [], timers = []\<rparr>"

text \<open>
  A sample platform for the examples: \<open>toISOString\<close> writes the ISO format
  \<open>YYYY-MM-DDTHH:mm:ss.sssZ\<close> (with a sign and six digits for a year outside 0 to
  9999), and the \<open>Date\<close> constructor reads that format and rejects every other string.
\<close>

definition pad :: "nat \<Rightarrow> nat \<Rightarrow> jstring" where
  "pad w n = replicate (w - length (digits n)) 0x30 @ digits n"

definition civil_from_days :: "int \<Rightarrow> int \<times> int \<times> int" where
  "civil_from_days z =
     (let z' = z + 719468;
          era = z' div 146097;
          doe = z' mod 146097;
          yoe = (doe - doe div 1460 + doe div 36524 - doe div 146096) div 365;
          doy = doe - (365 * yoe + yoe div 4 - yoe div 100);
          mp = (5 * doy + 2) div 153;
          d = doy - (153 * mp + 2) div 5 + 1;
          m = (if mp < 10 then mp + 3 else mp - 9);
          y = yoe + era * 400 + (if m \<le> 2 then 1 else 0)
      in (y, m, d))"

definition days_from_civil :: "int \<Rightarrow> int \<Rightarrow> int \<Rightarrow> int" where
  "days_from_civil y m d =
     (let y' = (if m \<le> 2 then y - 1 else y);
          era = y' div 400;
          yoe = y' mod 400;
          doy = (153 * (if m > 2 then m - 3 else m + 9) + 2) div 5 + d - 1;
          doe = yoe * 365 + yoe div 4 - yoe div 100 + doy
      in era * 146097 + doe - 719468)"

definition year_text :: "int \<Rightarrow> jstring" where
  "year_text y =
     (if 0 \<le> y \<and> y \<le> 9999 then pad 4 (nat y)
      else (if y < 0 then 0x2D else 0x2B) # pad 6 (nat \<bar>y\<bar>))"

definition iso_toISOString :: "int \<Rightarrow> jstring" where
  "iso_toISOString t =
     (case civil_from_days (t div 86400000) of
        (y, m, d) \<Rightarrow>
          (let ms = nat (t mod 86400000) in
           year_text y @ asc ''-'' @ pad 2 (nat m) @ asc ''-'' @ pad 2 (nat d) @ asc ''T'' @
           pad 2 (ms div 3600000) @ asc '':'' @ pad 2 (ms div 60000 mod 60) @ asc '':'' @
           pad 2 (ms div 1000 mod 60) @ asc ''.'' @ pad 3 (ms mod 1000) @ asc ''Z''))"

definition number_of :: "jstring \<Rightarrow> nat option" where
  "number_of s =
     (if s \<noteq> [] \<and> list_all is_digit s then Some (foldl (\<lambda>a c. a * 10 + (unat c - 48)) 0 s)
      else None)"

definition days_in_month :: "int \<Rightarrow> nat \<Rightarrow> nat" where
  "days_in_month y m =
     (if m = 2 then (if y mod 4 = 0 \<and> (y mod 100 \<noteq> 0 \<or> y mod 400 = 0) then 29 else 28)
      else if m = 4 \<or> m = 6 \<or> m = 9 \<or> m = 11 then 30 else 31)"

definition split_year :: "jstring \<Rightarrow> (int \<times> jstring) option" where
  "split_year s =
     (case s of
        [] \<Rightarrow> None
      | c # r \<Rightarrow>
          if c = 0x2B \<or> c = 0x2D then
            (case number_of (take 6 r) of
               None \<Rightarrow> None
             | Some y \<Rightarrow>
                 if length (take 6 r) \<noteq> 6 \<or> (c = 0x2D \<and> y = 0) then None
                 else Some (if c = 0x2D then - int y else int y, drop 6 r))
          else
            (case number_of (take 4 s) of
               None \<Rightarrow> None
             | Some y \<Rightarrow> if length (take 4 s) \<noteq> 4 then None else Some (int y, drop 4 s)))"

definition iso_Date_parse :: "jstring \<Rightarrow> jsdate" where
  "iso_Date_parse s =
     (case split_year s of
        None \<Rightarrow> InvalidDate
      | Some (y, r) \<Rightarrow>
          if length r \<noteq> 20 \<or> r ! 0 \<noteq> 0x2D \<or> r ! 3 \<noteq> 0x2D \<or> r ! 6 \<noteq> 0x54 \<or>
             r ! 9 \<noteq> 0x3A \<or> r ! 12 \<noteq> 0x3A \<or> r ! 15 \<noteq> 0x2E \<or> r ! 19 \<noteq> 0x5A
          then InvalidDate
          else
            (case (number_of (take 2 (drop 1 r)), number_of (take 2 (drop 4 r)),
                   number_of (take 2 (drop 7 r)), number_of (take 2 (drop 10 r)),
                   number_of (take 2 (drop 13 r)), number_of (take 3 (drop 16 r))) of
               (Some m, Some d, Some hh, Some mi, Some ss, Some ms) \<Rightarrow>
                 if 1 \<le> m \<and> m \<le> 12 \<and> 1 \<le> d \<and> d \<le> days_in_month y m \<and>
                    hh \<le> 23 \<and> mi \<le> 59 \<and> ss \<le> 59
                 then ValidDate (days_from_civil y (int m) (int d) * 86400000 +
                                 int (hh * 3600000 + mi * 60000 + ss * 1000 + ms))
                 else InvalidDate
             | _ \<Rightarrow> InvalidDate))"

definition iso_platform :: platform where
  "iso_platform = \<lparr>toISOString = iso_toISOString, Date_parse = iso_Date_parse\<rparr>"

text \<open>
  Worlds and exceptions for the examples: an empty store that never fails, stores whose
  \<open>setItem\<close> or \<open>removeItem\<close> always throws a given exception, and the exception of
  \<open>JSON.stringify\<close> on a cyclic structure.
\<close>

definition empty_world :: world where
  "empty_world = \<lparr>storage = Map.empty, faults = (\<lambda>h c. None), calls = [], console = []\<rparr>"

definition quota_error :: thrown where
  "quota_error = Thrown True (asc ''QuotaExceededError'') (asc ''QuotaExceededError'')"

definition other_error :: thrown where
  "other_error = Thrown True (asc ''Error'') (asc ''Some other error'')"

definition circular_error :: thrown where
  "circular_error = Thrown True (asc ''TypeError'') (asc ''Converting circular structure to JSON'')"

definition setItem_throws :: "thrown \<Rightarrow> call list \<Rightarrow> call \<Rightarrow> thrown option" where
  "setItem_throws e h c = (case c of SetItem k v \<Rightarrow> Some e | _ \<Rightarrow> None)"

definition removeItem_throws :: "thrown \<Rightarrow> call list \<Rightarrow> call \<Rightarrow> thrown option" where
  "removeItem_throws e h c = (case c of RemoveItem k \<Rightarrow> Some e | _ \<Rightarrow> None)"

text \<open>
  Stored texts for the examples: text that is not JSON, and the JSON text of an array
  whose single record has none of the five fields.
\<close>

definition corrupt_text :: jstring where
  "corrupt_text = asc ''invalid json''"

definition invalid_structure_text :: jstring where
  "invalid_structure_text =
     [c_lbracket, c_lbrace] @ member ''invalid'' (quote (asc ''structure'')) @ [c_rbrace, c_rbracket]"

definition ex_invalid_date :: Todo where
  "ex_invalid_date = (ex_todo ''1'' False)\<lparr>createdAt := InvalidDate\<rparr>"

definition stored_world :: world where
  "stored_world =
     empty_world\<lparr>storage := [STORAGE_KEY \<mapsto> JSON_stringify iso_platform [ex_todo ''1'' False]]\<rparr>"

section \<open>JSON.parse reads back what JSON.stringify writes\<close>

lemma unat_hexdig: "n < 16 \<Longrightarrow> unat (hexdig n) = (if n < 10 then 48 + n else 87 + n)"
  unfolding hexdig_def by (cases "n < 10") (simp_all add: unat_word_ariths unat_of_nat)

lemma unhex_hexdig: "n < 16 \<Longrightarrow> unhex (hexdig n) = Some n"
  by (simp add: unhex_def unat_hexdig Let_def)

lemma hex_split:
  fixes n :: nat
  assumes "n < 65536"
  shows "((n div 4096 mod 16 * 16 + n div 256 mod 16) * 16 + n div 16 mod 16) * 16 + n mod 16 = n"
proof -
  define a where "a = n div 16"
  define b where "b = a div 16"
  define c where "c = b div 16"
  have n: "a * 16 + n mod 16 = n" by (simp add: a_def)
  have a: "b * 16 + a mod 16 = a" by (simp add: b_def)
  have b: "c * 16 + b mod 16 = b" by (simp add: c_def)
  have d256: "n div 256 = b" by (simp add: a_def b_def div_mult2_eq)
  have d4096: "n div 4096 = c" by (simp add: a_def b_def c_def div_mult2_eq)
  have "n < 16 * 4096" using assms by simp
  then have "n div 4096 < 16" by (simp only: less_mult_imp_div_less)
  then have c16: "c mod 16 = c" using d4096 by simp
  show ?thesis
    by (simp only: d256 d4096 a_def [symmetric] c16 n a b)
qed

lemma unhex4_hex4:
  assumes h: "hex4 c = [h1, h2, h3, h4]"
  shows "unhex4 h1 h2 h3 h4 = Some c"
proof -
  have b: "unat c < 65536" using unsigned_less [of c, where 'a = nat] by simp
  have h1: "h1 = hexdig (unat c div 4096 mod 16)" using h by (simp add: hex4_def)
  have h2: "h2 = hexdig (unat c div 256 mod 16)" using h by (simp add: hex4_def)
  have h3: "h3 = hexdig (unat c div 16 mod 16)" using h by (simp add: hex4_def)
  have h4: "h4 = hexdig (unat c mod 16)" using h by (simp add: hex4_def)
  have u1: "unhex h1 = Some (unat c div 4096 mod 16)" unfolding h1 by (rule unhex_hexdig) simp
  have u2: "unhex h2 = Some (unat c div 256 mod 16)" unfolding h2 by (rule unhex_hexdig) simp
  have u3: "unhex h3 = Some (unat c div 16 mod 16)" unfolding h3 by (rule unhex_hexdig) simp
  have u4: "unhex h4 = Some (unat c mod 16)" unfolding h4 by (rule unhex_hexdig) simp
  show ?thesis
    unfolding unhex4_def u1 u2 u3 u4
    by (simp only: prod.case option.case hex_split [OF b]) simp
qed

lemma parse_string_quote_unit:
  "parse_string (quote_unit c @ rest) = cons_result c (parse_string rest)"
proof -
  obtain h1 h2 h3 h4 where h: "hex4 c = [h1, h2, h3, h4]" by (simp add: hex4_def)
  have u: "unhex4 h1 h2 h3 h4 = Some c" using h by (rule unhex4_hex4)
  show ?thesis
    by (simp add: quote_unit_def unescape_def h u)
qed

lemma parse_string_pair:
  "is_lead c \<Longrightarrow> is_trail d \<Longrightarrow>
   parse_string (c # d # rest) = cons_result c (cons_result d (parse_string rest))"
  by (auto simp: is_lead_def is_trail_def word_le_nat_alt word_less_nat_alt)

lemma parse_string_close: "parse_string (c_quote # rest) = Some ([], rest)"
  by simp

lemma parse_string_quote_body:
  "parse_string (quote_body s @ c_quote # rest) = Some (s, rest)"
proof (induction s rule: quote_body.induct)
  case 1
  show ?case by simp
next
  case (2 c)
  show ?case by (simp add: parse_string_quote_unit parse_string_close cons_result_def del: parse_string.simps(2))
next
  case (3 c d cs)
  show ?case
  proof (cases "is_lead c \<and> is_trail d")
    case True
    then show ?thesis using 3 parse_string_pair [of c d "quote_body cs @ c_quote # rest"]
      by (simp add: cons_result_def del: parse_string.simps(2))
  next
    case False
    then have q: "quote_body (c # d # cs) = quote_unit c @ quote_body (d # cs)" by auto
    from False 3 show ?thesis
      by (simp only: q append_assoc parse_string_quote_unit) (auto simp: cons_result_def)
  qed
qed

lemma skip_ws_Cons: "\<not> is_ws c \<Longrightarrow> skip_ws (c # r) = c # r"
  by (simp add: skip_ws_def)

lemma skip_ws_quote: "skip_ws (quote s @ r) = quote s @ r"
  by (simp add: quote_def skip_ws_def is_ws_def)

lemma parse_value_quote: "parse_value (Suc n) (quote s @ rest) = Some (JStr s, rest)"
  by (simp add: quote_def parse_string_quote_body)

lemma parse_value_bool: "parse_value (Suc n) (stringify_bool b @ rest) = Some (JBool b, rest)"
  by (simp add: stringify_bool_def asc_def)

lemma skip_ws_bool: "skip_ws (stringify_bool b @ r) = stringify_bool b @ r"
  by (simp add: stringify_bool_def asc_def skip_ws_def is_ws_def)

lemma parse_value_date:
  "parse_value (Suc n) (stringify_date P d @ rest) =
     Some (case d of ValidDate ti \<Rightarrow> JStr (toISOString P ti) | InvalidDate \<Rightarrow> JNull, rest)"
proof (cases d)
  case (ValidDate ti)
  then show ?thesis by (simp only: stringify_date_def jsdate.case parse_value_quote)
next
  case InvalidDate
  then show ?thesis by (simp add: stringify_date_def asc_def)
qed

lemma skip_ws_date: "skip_ws (stringify_date P d @ r) = stringify_date P d @ r"
  by (cases d) (simp_all add: stringify_date_def skip_ws_quote, simp add: asc_def skip_ws_def is_ws_def)

lemma parse_members_comma:
  assumes "parse_value n (vt @ c_comma # nxt) = Some (v, c_comma # nxt)"
    and "skip_ws (vt @ c_comma # nxt) = vt @ c_comma # nxt"
    and "skip_ws nxt = nxt"
  shows "parse_members (Suc n) (member k vt @ c_comma # nxt) =
           (case parse_members n nxt of
              None \<Rightarrow> None
            | Some (ps, r) \<Rightarrow> Some ((asc k, v) # ps, r))"
  using assms
  by (simp add: member_def quote_def parse_string_quote_body skip_ws_Cons is_ws_def)

lemma parse_members_last:
  assumes "parse_value n (vt @ c_rbrace # rest) = Some (v, c_rbrace # rest)"
    and "skip_ws (vt @ c_rbrace # rest) = vt @ c_rbrace # rest"
  shows "parse_members (Suc n) (member k vt @ c_rbrace # rest) = Some ([(asc k, v)], rest)"
  using assms
  by (simp add: member_def quote_def parse_string_quote_body skip_ws_Cons is_ws_def)

lemma skip_ws_member: "skip_ws (member k vt @ r) = member k vt @ r"
  by (simp add: member_def skip_ws_quote)

lemma build_object_todo:
  "build_object [(asc ''id'', a), (asc ''title'', b), (asc ''description'', c),
                 (asc ''completed'', d), (asc ''createdAt'', e)] =
     [(asc ''id'', a), (asc ''title'', b), (asc ''description'', c),
      (asc ''completed'', d), (asc ''createdAt'', e)]"
  by (simp add: build_object_def asc_def)

lemma parse_members_todo:
  "parse_members (Suc (Suc (Suc (Suc (Suc (Suc n))))))
     (member ''id'' (quote (todo_id t)) @ c_comma #
      member ''title'' (quote (title t)) @ c_comma #
      member ''description'' (quote (description t)) @ c_comma #
      member ''completed'' (stringify_bool (completed t)) @ c_comma #
      member ''createdAt'' (stringify_date P (createdAt t)) @ c_rbrace # rest) =
   Some ([(asc ''id'', JStr (todo_id t)),
          (asc ''title'', JStr (title t)),
          (asc ''description'', JStr (description t)),
          (asc ''completed'', JBool (completed t)),
          (asc ''createdAt'',
             (case createdAt t of ValidDate ti \<Rightarrow> JStr (toISOString P ti) | InvalidDate \<Rightarrow> JNull))],
         rest)"
  by (simp only: parse_members_comma parse_members_last parse_value_quote parse_value_bool
        parse_value_date skip_ws_quote skip_ws_bool skip_ws_date skip_ws_member
        option.case prod.case)

lemma stringify_todo_unfold:
  "stringify_todo P t @ rest =
     c_lbrace #
     (member ''id'' (quote (todo_id t)) @ c_comma #
      member ''title'' (quote (title t)) @ c_comma #
      member ''description'' (quote (description t)) @ c_comma #
      member ''completed'' (stringify_bool (completed t)) @ c_comma #
      member ''createdAt'' (stringify_date P (createdAt t)) @ c_rbrace # rest)"
  by (simp add: stringify_todo_def)

lemma member_Cons: "member k vt @ r = c_quote # (quote_body (asc k) @ c_quote # c_colon # vt @ r)"
  by (simp add: member_def quote_def)

lemma parse_value_todo_Suc:
  "parse_value (Suc (Suc (Suc (Suc (Suc (Suc (Suc n))))))) (stringify_todo P t @ rest) =
     Some (todo_toJSON P t, rest)"
proof -
  let ?ms = "member ''id'' (quote (todo_id t)) @ c_comma #
      member ''title'' (quote (title t)) @ c_comma #
      member ''description'' (quote (description t)) @ c_comma #
      member ''completed'' (stringify_bool (completed t)) @ c_comma #
      member ''createdAt'' (stringify_date P (createdAt t)) @ c_rbrace # rest"
  obtain r where r: "?ms = c_quote # r" by (simp add: member_Cons)
  have sk: "skip_ws ?ms = c_quote # r" unfolding r by (simp add: skip_ws_def is_ws_def)
  have pm: "parse_members (Suc (Suc (Suc (Suc (Suc (Suc n)))))) (c_quote # r) =
     Some ([(asc ''id'', JStr (todo_id t)),
          (asc ''title'', JStr (title t)),
          (asc ''description'', JStr (description t)),
          (asc ''completed'', JBool (completed t)),
          (asc ''createdAt'',
             (case createdAt t of ValidDate ti \<Rightarrow> JStr (toISOString P ti) | InvalidDate \<Rightarrow> JNull))],
         rest)"
    using parse_members_todo [of n t P rest] r by simp
  show ?thesis
    unfolding stringify_todo_unfold
    by (simp add: sk pm build_object_todo todo_toJSON_def del: parse_members.simps)
qed

lemma parse_value_todo:
  "7 \<le> n \<Longrightarrow> parse_value n (stringify_todo P t @ rest) = Some (todo_toJSON P t, rest)"
proof -
  assume "7 \<le> n"
  then obtain m where "n = 7 + m" using le_Suc_ex by blast
  then have "n = Suc (Suc (Suc (Suc (Suc (Suc (Suc m))))))" by simp
  then show ?thesis by (simp only: parse_value_todo_Suc)
qed

lemma stringify_todo_Cons: "\<exists>r. stringify_todo P t = c_lbrace # r"
  by (simp add: stringify_todo_def)

lemma join_commas_Cons: "ts \<noteq> [] \<Longrightarrow> \<exists>r. join_commas (map (stringify_todo P) ts) = c_lbrace # r"
proof (cases ts)
  case Nil
  assume "ts \<noteq> []"
  with Nil show ?thesis by simp
next
  case (Cons t us)
  obtain r where r: "stringify_todo P t = c_lbrace # r" using stringify_todo_Cons by blast
  show ?thesis using Cons r by (cases us) simp_all
qed

lemma skip_ws_join_commas:
  "ts \<noteq> [] \<Longrightarrow> skip_ws (join_commas (map (stringify_todo P) ts) @ r) =
     join_commas (map (stringify_todo P) ts) @ r"
proof -
  assume "ts \<noteq> []"
  then obtain q where "join_commas (map (stringify_todo P) ts) = c_lbrace # q"
    using join_commas_Cons by blast
  then show ?thesis by (simp add: skip_ws_def is_ws_def)
qed

lemma parse_elements_todos:
  "ts \<noteq> [] \<Longrightarrow> length ts + 7 \<le> n \<Longrightarrow>
   parse_elements n (join_commas (map (stringify_todo P) ts) @ c_rbracket # rest) =
     Some (map (todo_toJSON P) ts, rest)"
proof (induction ts arbitrary: n)
  case Nil
  then show ?case by simp
next
  case (Cons t us)
  from Cons.prems obtain m where n: "n = Suc m" and m: "length us + 7 \<le> m"
    by (cases n) auto
  have m7: "7 \<le> m" using m by simp
  show ?case
  proof (cases us)
    case Nil
    then show ?thesis
      using parse_value_todo [OF m7, of P t "c_rbracket # rest"]
      by (simp add: n skip_ws_def is_ws_def)
  next
    case (Cons u vs)
    have ih: "parse_elements m (join_commas (map (stringify_todo P) us) @ c_rbracket # rest) =
        Some (map (todo_toJSON P) us, rest)"
      using Cons.IH [of m] m Cons by simp
    have sk: "skip_ws (join_commas (map (stringify_todo P) us) @ c_rbracket # rest) =
        join_commas (map (stringify_todo P) us) @ c_rbracket # rest"
      using skip_ws_join_commas [of us P] Cons by simp
    have tx: "join_commas (map (stringify_todo P) (t # us)) @ c_rbracket # rest =
        stringify_todo P t @ c_comma # (join_commas (map (stringify_todo P) us) @ c_rbracket # rest)"
      using Cons by simp
    show ?thesis
      unfolding tx n
      using parse_value_todo [OF m7, of P t "c_comma # (join_commas (map (stringify_todo P) us) @ c_rbracket # rest)"]
      by (simp add: skip_ws_Cons is_ws_def sk ih)
  qed
qed

lemma length_stringify_todo: "1 \<le> length (stringify_todo P t)"
  by (simp add: stringify_todo_def)

lemma length_join_commas: "length ts \<le> length (join_commas (map (stringify_todo P) ts))"
proof (induction ts rule: induct_list012)
  case 1
  show ?case by simp
next
  case (2 x)
  show ?case using length_stringify_todo [of P x] by simp
next
  case (3 x y zs)
  then show ?case using length_stringify_todo [of P x] by simp
qed

lemma length_join_commas7: "ts \<noteq> [] \<Longrightarrow> 7 \<le> length (join_commas (map (stringify_todo P) ts))"
proof (cases ts)
  case Nil
  assume "ts \<noteq> []"
  with Nil show ?thesis by simp
next
  case (Cons t us)
  have "7 \<le> length (stringify_todo P t)" by (simp add: stringify_todo_def member_def quote_def asc_def)
  then show ?thesis using Cons by (cases us) simp_all
qed

lemma parse_value_empty_array:
  "parse_value (Suc n) [c_lbracket, c_rbracket] = Some (JArr [], [])"
  by (simp add: skip_ws_def is_ws_def)

lemma parse_value_array:
  assumes "parse_elements n (c_lbrace # r) = Some (vs, r')"
  shows "parse_value (Suc n) (c_lbracket # c_lbrace # r) = Some (JArr vs, r')"
  using assms by (simp add: skip_ws_def is_ws_def del: parse_elements.simps)

theorem JSON_parse_stringify:
  "JSON_parse (JSON_stringify P ts) = Some (JArr (map (todo_toJSON P) ts))"
proof (cases "ts = []")
  case True
  have f: "2 * length (JSON_stringify P ts) + 2 = Suc 5"
    using True by (simp add: JSON_stringify_def)
  have tx: "skip_ws (JSON_stringify P ts) = [c_lbracket, c_rbracket]"
    using True by (simp add: JSON_stringify_def skip_ws_def is_ws_def)
  have pv: "parse_value (2 * length (JSON_stringify P ts) + 2) [c_lbracket, c_rbracket] =
      Some (JArr [], [])"
    unfolding f by (rule parse_value_empty_array)
  show ?thesis
    unfolding JSON_parse_def tx pv
    using True by (simp add: skip_ws_def)
next
  case False
  let ?body = "join_commas (map (stringify_todo P) ts)"
  obtain r where r: "?body = c_lbrace # r" using join_commas_Cons [OF False] by blast
  have len: "length ts + 7 \<le> 2 * length ?body + 5"
    using length_join_commas [of ts P] length_join_commas7 [OF False, of P] by linarith
  have pe: "parse_elements (2 * length ?body + 5) (?body @ c_rbracket # []) =
      Some (map (todo_toJSON P) ts, [])"
    using parse_elements_todos [OF False len] .
  have fuel: "2 * length (JSON_stringify P ts) + 2 = Suc (2 * length ?body + 5)"
    by (simp add: JSON_stringify_def)
  have tx: "JSON_stringify P ts = c_lbracket # (?body @ [c_rbracket])"
    by (simp add: JSON_stringify_def)
  have tx': "skip_ws (JSON_stringify P ts) = c_lbracket # c_lbrace # (r @ [c_rbracket])"
    unfolding tx using r by (simp add: skip_ws_def is_ws_def)
  have pe': "parse_elements (2 * length ?body + 5) (c_lbrace # (r @ [c_rbracket])) =
      Some (map (todo_toJSON P) ts, [])"
    using pe r by simp
  have pv: "parse_value (2 * length (JSON_stringify P ts) + 2) (skip_ws (JSON_stringify P ts)) =
      Some (JArr (map (todo_toJSON P) ts), [])"
    unfolding fuel tx' by (rule parse_value_array [OF pe'])
  show ?thesis
    unfolding JSON_parse_def pv by (simp add: skip_ws_def)
qed

section \<open>The operations of the state owner\<close>

lemma merge_only_completed:
  "merge todo (no_updates\<lparr>upd_completed := Some b\<rparr>) = todo\<lparr>completed := b\<rparr>"
  by (simp add: merge_def no_updates_def)

lemma todo_id_merge: "upd_id u = None \<Longrightarrow> todo_id (merge todo u) = todo_id todo"
  by (simp add: merge_def)

lemma toggle_edit_arrays:
  assumes "\<forall>r \<in> set ts. todo_id r = i \<longrightarrow> completed r = cur"
  shows "toggleTodoCompletion_array ts i =
           editTodo_array ts i (no_updates\<lparr>upd_completed := Some (\<not> cur)\<rparr>)"
  using assms
  by (induction ts) (simp_all add: toggleTodoCompletion_array_def editTodo_array_def merge_only_completed)

lemma toggle_nth:
  "k < length ts \<Longrightarrow>
   toggleTodoCompletion_array ts i ! k =
     (if todo_id (ts ! k) = i then (ts ! k)\<lparr>completed := \<not> completed (ts ! k)\<rparr> else ts ! k)"
  by (simp add: toggleTodoCompletion_array_def)

lemma toggle_no_match:
  "\<forall>r \<in> set ts. todo_id r \<noteq> i \<Longrightarrow> toggleTodoCompletion_array ts i = ts"
  by (induction ts) (simp_all add: toggleTodoCompletion_array_def)

lemma distinct_ids_one_flag:
  assumes "distinct (map todo_id ts)"
  shows "\<exists>cur. \<forall>r \<in> set ts. todo_id r = i \<longrightarrow> completed r = cur"
proof (cases "\<exists>r \<in> set ts. todo_id r = i")
  case True
  then obtain r0 where r0: "r0 \<in> set ts" "todo_id r0 = i" by blast
  have "\<forall>r \<in> set ts. todo_id r = i \<longrightarrow> r = r0"
    using assms r0 by (metis distinct_map inj_on_def)
  then show ?thesis by blast
next
  case False
  then show ?thesis by blast
qed

text \<open>
  C7, as stated, fails on a collection in which two records carry the same id and
  different \<open>completed\<close> flags (such a collection passes \<open>isValidTodos\<close>):
  \<open>toggleTodoCompletion\<close> flips each matching record's own flag, \<open>editTodo\<close> writes one
  value into all of them, so the two differ whichever flag is taken for \<open>current\<close>.
\<close>

theorem toggleTodoCompletion_duplicate_ids:
  "toggleTodoCompletion_array [ex_todo ''1'' False, ex_todo ''1'' True] (asc ''1'') =
     [ex_todo ''1'' True, ex_todo ''1'' False] \<and>
   editTodo_array [ex_todo ''1'' False, ex_todo ''1'' True] (asc ''1'')
       (no_updates\<lparr>upd_completed := Some True\<rparr>) =
     [ex_todo ''1'' True, ex_todo ''1'' True] \<and>
   editTodo_array [ex_todo ''1'' False, ex_todo ''1'' True] (asc ''1'')
       (no_updates\<lparr>upd_completed := Some False\<rparr>) =
     [ex_todo ''1'' False, ex_todo ''1'' False] \<and>
   toggleTodoCompletion_array [ex_todo ''1'' False, ex_todo ''1'' True] (asc ''1'') \<noteq>
     editTodo_array [ex_todo ''1'' False, ex_todo ''1'' True] (asc ''1'')
       (no_updates\<lparr>upd_completed := Some True\<rparr>) \<and>
   toggleTodoCompletion_array [ex_todo ''1'' False, ex_todo ''1'' True] (asc ''1'') \<noteq>
     editTodo_array [ex_todo ''1'' False, ex_todo ''1'' True] (asc ''1'')
       (no_updates\<lparr>upd_completed := Some False\<rparr>) \<and>
   isValidTodos (JArr (map js_of_todo [ex_todo ''1'' False, ex_todo ''1'' True]))"
  by (simp add: toggleTodoCompletion_array_def editTodo_array_def merge_def no_updates_def
      ex_todo_def isValidTodos_def isValidTodos_item_def js_of_todo_def asc_def)

text \<open>
  C7, amended. On a collection in which the records matching \<open>id\<close> all carry the same
  \<open>completed\<close> flag \<open>current\<close> (so whenever the ids are pairwise distinct, and whenever
  no record matches), \<open>toggleTodoCompletion(id)\<close> produces the collection that
  \<open>editTodo(id, {completed: !current})\<close> produces: the matching record's flag is
  flipped, every other record is unchanged, and with no matching record the records are
  unchanged. The two operations also leave the component in the same state.
\<close>

theorem toggleTodoCompletion_as_editTodo:
  assumes "\<forall>r \<in> set ts. todo_id r = i \<longrightarrow> completed r = cur"
  shows "toggleTodoCompletion_array ts i =
           editTodo_array ts i (no_updates\<lparr>upd_completed := Some (\<not> cur)\<rparr>) \<and>
         length (toggleTodoCompletion_array ts i) = length ts \<and>
         (\<forall>k < length ts.
            toggleTodoCompletion_array ts i ! k =
              (if todo_id (ts ! k) = i then (ts ! k)\<lparr>completed := \<not> completed (ts ! k)\<rparr>
               else ts ! k)) \<and>
         ((\<forall>r \<in> set ts. todo_id r \<noteq> i) \<longrightarrow> toggleTodoCompletion_array ts i = ts) \<and>
         (todos (prov a) = ts \<longrightarrow>
            toggleTodoCompletion P enow i a =
              editTodo P enow i (no_updates\<lparr>upd_completed := Some (\<not> cur)\<rparr>) a)"
proof -
  have eq: "toggleTodoCompletion_array ts i =
      editTodo_array ts i (no_updates\<lparr>upd_completed := Some (\<not> cur)\<rparr>)"
    using assms by (rule toggle_edit_arrays)
  have len: "length (toggleTodoCompletion_array ts i) = length ts"
    by (simp add: toggleTodoCompletion_array_def)
  have app: "todos (prov a) = ts \<longrightarrow>
      toggleTodoCompletion P enow i a =
        editTodo P enow i (no_updates\<lparr>upd_completed := Some (\<not> cur)\<rparr>) a"
    by (simp add: toggleTodoCompletion_def editTodo_def eq)
  show ?thesis
    using eq len app toggle_nth [of _ ts i] toggle_no_match [of ts i] by blast
qed

theorem toggleTodoCompletion_as_editTodo_witness:
  "toggleTodoCompletion_array [ex_todo ''1'' False, ex_todo ''2'' True] (asc ''1'') =
     editTodo_array [ex_todo ''1'' False, ex_todo ''2'' True] (asc ''1'')
       (no_updates\<lparr>upd_completed := Some True\<rparr>) \<and>
   toggleTodoCompletion_array [ex_todo ''1'' False, ex_todo ''2'' True] (asc ''1'') =
     [ex_todo ''1'' True, ex_todo ''2'' True]"
proof -
  have h: "\<forall>r \<in> set [ex_todo ''1'' False, ex_todo ''2'' True].
      todo_id r = asc ''1'' \<longrightarrow> completed r = False"
    by (simp add: ex_todo_def asc_def)
  have "toggleTodoCompletion_array [ex_todo ''1'' False, ex_todo ''2'' True] (asc ''1'') =
     editTodo_array [ex_todo ''1'' False, ex_todo ''2'' True] (asc ''1'')
       (no_updates\<lparr>upd_completed := Some (\<not> False)\<rparr>)"
    using toggleTodoCompletion_as_editTodo [OF h] by blast
  then show ?thesis
    by (simp add: toggleTodoCompletion_array_def ex_todo_def asc_def)
qed

text \<open>
  C6, as stated, fails: \<open>editTodo\<close> merges whatever \<open>updates\<close> carries, an \<open>id\<close>
  included, so it can give one record the id of another.
\<close>

theorem editTodo_breaks_unique_ids:
  "distinct (map todo_id [ex_todo ''1'' False, ex_todo ''2'' False]) \<and>
   \<not> distinct (map todo_id
       (editTodo_array [ex_todo ''1'' False, ex_todo ''2'' False] (asc ''1'')
          (no_updates\<lparr>upd_id := Some (asc ''2'')\<rparr>)))"
  by (simp add: editTodo_array_def merge_def no_updates_def ex_todo_def asc_def)

lemma ids_editTodo: "upd_id u = None \<Longrightarrow> map todo_id (editTodo_array ts i u) = map todo_id ts"
  by (induction ts) (simp_all add: editTodo_array_def todo_id_merge)

lemma ids_toggle: "map todo_id (toggleTodoCompletion_array ts i) = map todo_id ts"
  by (induction ts) (simp_all add: toggleTodoCompletion_array_def)

lemma ids_delete: "map todo_id (deleteTodo_array ts i) = filter (\<lambda>j. j \<noteq> i) (map todo_id ts)"
  by (induction ts) (simp_all add: deleteTodo_array_def)

lemma ids_add: "map todo_id (addTodo_array uuid now ts ttl descr) = map todo_id ts @ [uuid]"
  by (simp add: addTodo_array_def)

text \<open>
  C6, amended. On a collection with pairwise distinct ids: \<open>addTodo\<close> appends a record
  with the generated id and keeps the ids distinct when that id is not in the collection
  yet; \<open>editTodo\<close> with updates that carry no \<open>id\<close>, and \<open>toggleTodoCompletion\<close>,
  leave the id of every record as it was; \<open>deleteTodo\<close> removes the records with the
  given id and leaves the ids of the others as they were, in their order.
\<close>

theorem operations_keep_ids:
  assumes "distinct (map todo_id ts)"
  shows "(uuid \<notin> set (map todo_id ts) \<longrightarrow>
            distinct (map todo_id (addTodo_array uuid now ts ttl descr))) \<and>
         map todo_id (addTodo_array uuid now ts ttl descr) = map todo_id ts @ [uuid] \<and>
         (upd_id u = None \<longrightarrow>
            map todo_id (editTodo_array ts i u) = map todo_id ts \<and>
            distinct (map todo_id (editTodo_array ts i u))) \<and>
         map todo_id (toggleTodoCompletion_array ts i) = map todo_id ts \<and>
         distinct (map todo_id (toggleTodoCompletion_array ts i)) \<and>
         map todo_id (deleteTodo_array ts i) = filter (\<lambda>j. j \<noteq> i) (map todo_id ts) \<and>
         distinct (map todo_id (deleteTodo_array ts i))"
  using assms by (simp add: ids_add ids_editTodo ids_toggle ids_delete)

theorem operations_keep_ids_witness:
  "distinct (map todo_id
     (addTodo_array (asc ''3'') 1672531200000 [ex_todo ''1'' False, ex_todo ''2'' False]
        (asc ''Test'') (asc ''Desc''))) \<and>
   map todo_id
     (editTodo_array [ex_todo ''1'' False, ex_todo ''2'' False] (asc ''1'')
        (no_updates\<lparr>upd_title := Some (asc ''New'')\<rparr>)) = [asc ''1'', asc ''2''] \<and>
   map todo_id (deleteTodo_array [ex_todo ''1'' False, ex_todo ''2'' False] (asc ''1'')) = [asc ''2'']"
proof -
  have d: "distinct (map todo_id [ex_todo ''1'' False, ex_todo ''2'' False])"
    by (simp add: ex_todo_def asc_def)
  have f: "asc ''3'' \<notin> set (map todo_id [ex_todo ''1'' False, ex_todo ''2'' False])"
    by (simp add: ex_todo_def asc_def)
  have u: "upd_id (no_updates\<lparr>upd_title := Some (asc ''New'')\<rparr>) = None"
    by (simp add: no_updates_def)
  note t = operations_keep_ids [OF d, of "asc ''3''" 1672531200000 "asc ''Test''" "asc ''Desc''"
      "no_updates\<lparr>upd_title := Some (asc ''New'')\<rparr>" "asc ''1''"]
  from t f u show ?thesis
    by (simp add: ex_todo_def asc_def)
qed

section \<open>The shape predicate\<close>

lemma typeof_string_iff: "typeof v = ''string'' \<longleftrightarrow> (\<exists>s. v = JStr s)"
  by (cases v) simp_all

lemma typeof_boolean_iff: "typeof v = ''boolean'' \<longleftrightarrow> (\<exists>b. v = JBool b)"
  by (cases v) simp_all

lemma instanceofDate_iff: "instanceofDate v \<longleftrightarrow> (\<exists>d. v = JDate d)"
  by (cases v) simp_all

lemma get_prop_string:
  "typeof (get_prop (JObj kvs) (asc k)) = ''string'' \<longleftrightarrow> field_is_string kvs k"
  by (auto simp: field_is_string_def typeof_string_iff split: option.splits jsval.splits)

lemma get_prop_boolean:
  "typeof (get_prop (JObj kvs) (asc k)) = ''boolean'' \<longleftrightarrow> field_is_boolean kvs k"
  by (auto simp: field_is_boolean_def typeof_boolean_iff split: option.splits jsval.splits)

lemma get_prop_date:
  "instanceofDate (get_prop (JObj kvs) (asc k)) \<longleftrightarrow> field_is_date kvs k"
  by (auto simp: field_is_date_def instanceofDate_iff split: option.splits jsval.splits)

lemma isValidTodos_item_JObj:
  "isValidTodos_item (JObj kvs) \<longleftrightarrow>
     field_is_string kvs ''id'' \<and> field_is_string kvs ''title'' \<and>
     field_is_string kvs ''description'' \<and> field_is_boolean kvs ''completed'' \<and>
     (field_is_date kvs ''createdAt'' \<or> field_is_string kvs ''createdAt'')"
  unfolding isValidTodos_item_def get_prop_string get_prop_boolean get_prop_date
  by simp

lemma isValidTodos_item_iff:
  "isValidTodos_item item \<longleftrightarrow>
     (\<exists>kvs. item = JObj kvs \<and>
        field_is_string kvs ''id'' \<and> field_is_string kvs ''title'' \<and>
        field_is_string kvs ''description'' \<and> field_is_boolean kvs ''completed'' \<and>
        (field_is_date kvs ''createdAt'' \<or> field_is_string kvs ''createdAt''))"
proof (cases item)
  case (JObj kvs)
  then show ?thesis by (simp only: isValidTodos_item_JObj) auto
qed (simp_all add: isValidTodos_item_def)

text \<open>
  C5, as stated, fails: the predicate reads the five fields and looks at nothing else, so
  a record that carries a sixth field is accepted.
\<close>

theorem isValidTodos_accepts_sixth_field:
  "isValidTodos (JArr [ex_six_fields]) \<and> length (spread ex_six_fields) = 6 \<and>
   map_of (spread ex_six_fields) (asc ''extra'') = Some (JBool True)"
  by (simp add: isValidTodos_def isValidTodos_item_def ex_six_fields_def asc_def)

text \<open>
  C5, amended. \<open>isValidTodos(x)\<close> holds exactly when \<open>x\<close> is an array every element
  of which is a non-null record that contains at least the five fields \<open>id\<close>,
  \<open>title\<close>, \<open>description\<close> (strings), \<open>completed\<close> (a boolean) and \<open>createdAt\<close>
  (a date or a string). One malformed element makes the whole array invalid, and the
  empty array is valid.
\<close>

theorem isValidTodos_iff:
  "isValidTodos x \<longleftrightarrow>
     (\<exists>xs. x = JArr xs \<and>
        (\<forall>item \<in> set xs. \<exists>kvs. item = JObj kvs \<and>
           field_is_string kvs ''id'' \<and> field_is_string kvs ''title'' \<and>
           field_is_string kvs ''description'' \<and> field_is_boolean kvs ''completed'' \<and>
           (field_is_date kvs ''createdAt'' \<or> field_is_string kvs ''createdAt'')))"
proof (cases x)
  case (JArr xs)
  then show ?thesis
    by (simp add: isValidTodos_def list_all_iff isValidTodos_item_iff)
qed (simp_all add: isValidTodos_def)

theorem isValidTodos_iff_witness:
  "isValidTodos (JArr []) \<and>
   isValidTodos (JArr [js_of_todo (ex_todo ''1'' False)]) \<and>
   \<not> isValidTodos (JArr [js_of_todo (ex_todo ''1'' False), ex_two_fields]) \<and>
   \<not> isValidTodos JNull"
  using isValidTodos_iff [of "JArr []"]
    isValidTodos_iff [of "JArr [js_of_todo (ex_todo ''1'' False)]"]
    isValidTodos_iff [of "JArr [js_of_todo (ex_todo ''1'' False), ex_two_fields]"]
    isValidTodos_iff [of JNull]
  by (simp add: js_of_todo_def ex_two_fields_def field_is_string_def field_is_boolean_def
      field_is_date_def asc_def)

section \<open>Notification identifiers\<close>

lemma digits_ne: "digits n \<noteq> []"
  by (subst digits.simps) simp

lemma unat_digit: "n < 10 \<Longrightarrow> unat (of_nat (48 + n) :: 16 word) = 48 + n"
  by (subst unat_of_nat) simp

lemma digit_inj:
  assumes "a < 10" "b < 10" "(of_nat (48 + a) :: 16 word) = of_nat (48 + b)"
  shows "a = b"
proof -
  have "unat (of_nat (48 + a) :: 16 word) = unat (of_nat (48 + b) :: 16 word)"
    using assms(3) by simp
  then show ?thesis using assms(1,2) by (simp only: unat_digit)
qed

lemma digits_inj: "digits n = digits m \<Longrightarrow> n = m"
proof (induction n arbitrary: m rule: digits.induct)
  case (1 n)
  show ?case
  proof (cases "n < 10")
    case True
    have n1: "digits n = [of_nat (48 + n)]" using True by (subst digits.simps) simp
    show ?thesis
    proof (cases "m < 10")
      case mt: True
      have "digits m = [of_nat (48 + m)]" using mt by (subst digits.simps) simp
      with n1 "1.prems" have "(of_nat (48 + n) :: 16 word) = of_nat (48 + m)" by simp
      then show ?thesis using True mt digit_inj by blast
    next
      case mf: False
      have "digits m = digits (m div 10) @ [of_nat (48 + m mod 10)]"
        using mf by (subst digits.simps) simp
      with n1 "1.prems" have "digits (m div 10) = []" by simp
      then show ?thesis using digits_ne by blast
    qed
  next
    case False
    have n2: "digits n = digits (n div 10) @ [of_nat (48 + n mod 10)]"
      using False by (subst digits.simps) simp
    show ?thesis
    proof (cases "m < 10")
      case mt: True
      have "digits m = [of_nat (48 + m)]" using mt by (subst digits.simps) simp
      with n2 "1.prems" have "digits (n div 10) = []" by simp
      then show ?thesis using digits_ne by blast
    next
      case mf: False
      have m2: "digits m = digits (m div 10) @ [of_nat (48 + m mod 10)]"
        using mf by (subst digits.simps) simp
      from n2 m2 "1.prems" have a: "digits (n div 10) = digits (m div 10)"
        and b: "(of_nat (48 + n mod 10) :: 16 word) = of_nat (48 + m mod 10)" by simp_all
      have "n div 10 = m div 10" using "1.IH" [OF False a] .
      moreover have "n mod 10 = m mod 10" using digit_inj [OF _ _ b] by simp
      ultimately show ?thesis by (metis div_mult_mod_eq)
    qed
  qed
qed

lemma digits_no_minus: "x \<in> set (digits n) \<Longrightarrow> x \<noteq> 0x2D"
proof (induction n rule: digits.induct)
  case (1 n)
  show ?case
  proof (cases "n < 10")
    case True
    have "digits n = [of_nat (48 + n)]" using True by (subst digits.simps) simp
    with "1.prems" have x: "x = of_nat (48 + n)" by simp
    have "unat (of_nat (48 + n) :: 16 word) = 48 + n" using True by (rule unat_digit)
    then have "unat x \<noteq> unat (0x2D :: 16 word)" using x by simp
    then show ?thesis by auto
  next
    case False
    have "digits n = digits (n div 10) @ [of_nat (48 + n mod 10)]"
      using False by (subst digits.simps) simp
    with "1.prems" consider "x \<in> set (digits (n div 10))" | "x = of_nat (48 + n mod 10)" by auto
    then show ?thesis
    proof cases
      case 1
      then show ?thesis using "1.IH" [OF False] by simp
    next
      case 2
      have "unat (of_nat (48 + n mod 10) :: 16 word) = 48 + n mod 10" by (rule unat_digit) simp
      then have "unat x \<noteq> unat (0x2D :: 16 word)" using 2 by simp
      then show ?thesis by auto
    qed
  qed
qed

lemma Number_toString_inj: "Number_toString a = Number_toString b \<Longrightarrow> a = b"
proof -
  assume e: "Number_toString a = Number_toString b"
  have hd_ne: "\<And>n. hd (digits n) \<noteq> 0x2D"
    using digits_no_minus digits_ne hd_in_set by blast
  show ?thesis
  proof (cases "a < 0")
    case an: True
    show ?thesis
    proof (cases "b < 0")
      case True
      with an e have "digits (nat (- a)) = digits (nat (- b))" by (simp add: Number_toString_def)
      then have "nat (- a) = nat (- b)" by (rule digits_inj)
      with an True show ?thesis by simp
    next
      case False
      with an e have "0x2D # digits (nat (- a)) = digits (nat b)" by (simp add: Number_toString_def)
      then have "hd (digits (nat b)) = 0x2D" by (metis list.sel(1))
      with hd_ne show ?thesis by blast
    qed
  next
    case ap: False
    show ?thesis
    proof (cases "b < 0")
      case True
      with ap e have "digits (nat a) = 0x2D # digits (nat (- b))" by (simp add: Number_toString_def)
      then have "hd (digits (nat a)) = 0x2D" by (metis list.sel(1))
      with hd_ne show ?thesis by blast
    next
      case False
      with ap e have "digits (nat a) = digits (nat b)" by (simp add: Number_toString_def)
      then have "nat a = nat b" by (rule digits_inj)
      with ap False show ?thesis by simp
    qed
  qed
qed

lemma toasts_showToast:
  "toasts (showToast now msg ty dur st) =
     toasts st @ [\<lparr>toast_id = Number_toString now, message = msg,
                   toast_type = (case ty of None \<Rightarrow> Info | Some t \<Rightarrow> t),
                   duration = Some (case dur of None \<Rightarrow> 5000 | Some d \<Rightarrow> d)\<rparr>]"
  by (simp add: showToast_def Let_def)

lemma timers_showToast:
  "timers (showToast now msg ty dur st) =
     timers st @ [(Number_toString now, case dur of None \<Rightarrow> 5000 | Some d \<Rightarrow> d)]"
  by (simp add: showToast_def Let_def)

text \<open>
  C9, as stated, fails: the identifier is the clock reading in milliseconds, so two calls
  within one millisecond get the same identifier, and dismissing it (or its timer firing)
  removes both notifications.
\<close>

theorem showToast_same_clock_same_id:
  "map toast_id
     (toasts (showToast 1700000000000 (asc ''second'') None None
                (showToast 1700000000000 (asc ''first'') None None no_toasts))) =
     [Number_toString 1700000000000, Number_toString 1700000000000] \<and>
   toasts (dismissToast (Number_toString 1700000000000)
             (showToast 1700000000000 (asc ''second'') None None
                (showToast 1700000000000 (asc ''first'') None None no_toasts))) = [] \<and>
   toasts (timer_fires 0
             (showToast 1700000000000 (asc ''second'') None None
                (showToast 1700000000000 (asc ''first'') None None no_toasts))) = []"
  by (simp add: toasts_showToast timers_showToast dismissToast_def timer_fires_def no_toasts_def)

text \<open>
  C9, amended. Two calls of \<open>showToast\<close> at different clock readings create
  notifications with different identifiers, and the timer each call sets removes the
  identifier of its own notification. Dismissing an identifier, and a timer firing, remove
  the notifications with that identifier and no other.
\<close>

theorem showToast_ids_by_clock:
  assumes "now1 \<noteq> now2"
  shows "toast_id (last (toasts (showToast now1 m1 ty1 d1 st1))) \<noteq>
           toast_id (last (toasts (showToast now2 m2 ty2 d2 st2))) \<and>
         fst (last (timers (showToast now1 m1 ty1 d1 st1))) =
           toast_id (last (toasts (showToast now1 m1 ty1 d1 st1))) \<and>
         toasts (dismissToast i st) = filter (\<lambda>t. toast_id t \<noteq> i) (toasts st) \<and>
         (k < length (timers st) \<longrightarrow>
            toasts (timer_fires k st) =
              filter (\<lambda>t. toast_id t \<noteq> fst (timers st ! k)) (toasts st))"
  using assms Number_toString_inj [of now1 now2]
  by (auto simp: toasts_showToast timers_showToast dismissToast_def timer_fires_def)

theorem showToast_ids_by_clock_witness:
  "map message
     (toasts (dismissToast (Number_toString 1700000000000)
                (showToast 1700000000001 (asc ''second'') None None
                   (showToast 1700000000000 (asc ''first'') None None no_toasts)))) =
     [asc ''second''] \<and>
   map message
     (toasts (timer_fires 1
                (showToast 1700000000001 (asc ''second'') None None
                   (showToast 1700000000000 (asc ''first'') None None no_toasts)))) =
     [asc ''first'']"
proof -
  have ne: "(1700000000000 :: int) \<noteq> 1700000000001" by simp
  note t = showToast_ids_by_clock [OF ne, of "asc ''first''" None None no_toasts
      "asc ''second''" None None no_toasts]
  from t have "Number_toString 1700000000000 \<noteq> Number_toString 1700000000001"
    by (simp add: toasts_showToast)
  then show ?thesis
    by (auto simp: toasts_showToast timers_showToast dismissToast_def timer_fires_def no_toasts_def)
qed

section \<open>The sample platform at the instant of the tests\<close>

lemma digits_numeral:
  "digits (numeral k) =
     (if (numeral k :: nat) < 10 then [of_nat (48 + numeral k)]
      else digits (numeral k div 10) @ [of_nat (48 + numeral k mod 10)])"
  by (rule digits.simps)

lemma digits_0: "digits 0 = [48]"
  by (subst digits.simps) simp

lemma digits_1: "digits (Suc 0) = [49]"
  by (subst digits.simps) simp

lemma iso_toISOString_2023:
  "iso_toISOString 1672531200000 = asc ''2023-01-01T00:00:00.000Z''"
proof -
  have d: "(1672531200000 :: int) div 86400000 = 19358" by simp
  have c: "civil_from_days 19358 = (2023, 1, 1)"
    unfolding civil_from_days_def Let_def by simp
  have m: "nat (1672531200000 mod 86400000) = 0" by simp
  have r2: "replicate 2 (48 :: 16 word) = [48, 48]" by (simp add: numeral_2_eq_2)
  show ?thesis
    unfolding iso_toISOString_def d c prod.case m Let_def
    by (simp add: year_text_def pad_def asc_def r2 digits_numeral digits_0 digits_1)
qed

lemma iso_Date_parse_2023:
  "iso_Date_parse (asc ''2023-01-01T00:00:00.000Z'') = ValidDate 1672531200000"
  by (simp add: iso_Date_parse_def split_year_def number_of_def is_digit_def days_in_month_def
      days_from_civil_def asc_def)

lemma iso_platform_2023:
  "Date_parse iso_platform (toISOString iso_platform 1672531200000) = ValidDate 1672531200000"
  by (simp add: iso_platform_def iso_toISOString_2023 iso_Date_parse_2023)

section \<open>The storage adapter: saving, and loading an empty value\<close>

lemma saveTodos_cases:
  "saveTodos P x w =
     (case JSON_stringify_call P x of
        Inl e \<Rightarrow>
          (if instanceofError e \<and> name e = asc ''QuotaExceededError'' then
             (Inr \<lparr>success = False, error = Some quota_message\<rparr>,
              console_warn [LogStr (asc ''SessionStorage quota exceeded, continuing with in-memory state'')] w)
           else
             (Inr \<lparr>success = False, error = Some generic_message\<rparr>,
              console_warn [LogStr (asc ''Failed to save todos to sessionStorage:''), LogErr e] w))
      | Inr text \<Rightarrow>
          (case faults w (calls w) (SetItem STORAGE_KEY text) of
             None \<Rightarrow>
               (Inr \<lparr>success = True, error = None\<rparr>,
                w\<lparr>storage := (storage w)(STORAGE_KEY \<mapsto> text),
                  calls := calls w @ [SetItem STORAGE_KEY text]\<rparr>)
           | Some e \<Rightarrow>
               (if instanceofError e \<and> name e = asc ''QuotaExceededError'' then
                  (Inr \<lparr>success = False, error = Some quota_message\<rparr>,
                   console_warn [LogStr (asc ''SessionStorage quota exceeded, continuing with in-memory state'')]
                     (w\<lparr>calls := calls w @ [SetItem STORAGE_KEY text]\<rparr>))
                else
                  (Inr \<lparr>success = False, error = Some generic_message\<rparr>,
                   console_warn [LogStr (asc ''Failed to save todos to sessionStorage:''), LogErr e]
                     (w\<lparr>calls := calls w @ [SetItem STORAGE_KEY text]\<rparr>)))))"
  by (simp add: saveTodos_def saveTodos_try_def setItem_def split: sum.splits option.splits)

text \<open>
  C2. \<open>saveTodos\<close> never throws, whatever it is handed and however the store behaves: its
  outcome is always a returned result. The result is \<open>{success: true}\<close> when the
  serialisation and the write succeed. When the write throws an \<open>Error\<close> named
  \<open>QuotaExceededError\<close> the result is a failure with the quota message; on any other
  exception of the write, and on an exception of the serialisation, it is a failure with the
  generic message. (The handler tests the name of whatever was thrown, so a serialisation
  error that carried the quota name would get the quota message too.) A failure leaves the
  store as it was and is logged with its own warning; after a failed serialisation the
  store is not called at all.
\<close>

theorem saveTodos_never_throws:
  "(\<exists>r w'. saveTodos P x w = (Inr r, w')) \<and>
   (\<forall>text. JSON_stringify_call P x = Inr text \<and>
           faults w (calls w) (SetItem STORAGE_KEY text) = None \<longrightarrow>
      fst (saveTodos P x w) = Inr \<lparr>success = True, error = None\<rparr> \<and>
      storage (snd (saveTodos P x w)) STORAGE_KEY = Some text \<and>
      console (snd (saveTodos P x w)) = console w) \<and>
   (\<forall>text e. JSON_stringify_call P x = Inr text \<and>
             faults w (calls w) (SetItem STORAGE_KEY text) = Some e \<longrightarrow>
      storage (snd (saveTodos P x w)) = storage w \<and>
      (instanceofError e \<and> name e = asc ''QuotaExceededError'' \<longrightarrow>
         fst (saveTodos P x w) = Inr \<lparr>success = False, error = Some quota_message\<rparr> \<and>
         console (snd (saveTodos P x w)) =
           console w @ [[LogStr (asc ''SessionStorage quota exceeded, continuing with in-memory state'')]]) \<and>
      (\<not> (instanceofError e \<and> name e = asc ''QuotaExceededError'') \<longrightarrow>
         fst (saveTodos P x w) = Inr \<lparr>success = False, error = Some generic_message\<rparr> \<and>
         console (snd (saveTodos P x w)) =
           console w @ [[LogStr (asc ''Failed to save todos to sessionStorage:''), LogErr e]])) \<and>
   (\<forall>e. JSON_stringify_call P x = Inl e \<longrightarrow>
      storage (snd (saveTodos P x w)) = storage w \<and>
      calls (snd (saveTodos P x w)) = calls w \<and>
      (instanceofError e \<and> name e = asc ''QuotaExceededError'' \<longrightarrow>
         fst (saveTodos P x w) = Inr \<lparr>success = False, error = Some quota_message\<rparr> \<and>
         console (snd (saveTodos P x w)) =
           console w @ [[LogStr (asc ''SessionStorage quota exceeded, continuing with in-memory state'')]]) \<and>
      (\<not> (instanceofError e \<and> name e = asc ''QuotaExceededError'') \<longrightarrow>
         fst (saveTodos P x w) = Inr \<lparr>success = False, error = Some generic_message\<rparr> \<and>
         console (snd (saveTodos P x w)) =
           console w @ [[LogStr (asc ''Failed to save todos to sessionStorage:''), LogErr e]]))"
proof -
  have 1: "\<exists>r w'. saveTodos P x w = (Inr r, w')"
    by (simp add: saveTodos_cases split: sum.splits option.splits)
  show ?thesis
    using 1 by (auto simp: saveTodos_cases console_warn_def)
qed

theorem saveTodos_never_throws_witness:
  "fst (saveTodos iso_platform (Typed [ex_todo ''1'' False]) empty_world) =
     Inr \<lparr>success = True, error = None\<rparr> \<and>
   fst (saveTodos iso_platform (Typed [ex_todo ''1'' False])
          (empty_world\<lparr>faults := setItem_throws quota_error\<rparr>)) =
     Inr \<lparr>success = False, error = Some quota_message\<rparr> \<and>
   fst (saveTodos iso_platform (Typed [ex_todo ''1'' False])
          (empty_world\<lparr>faults := setItem_throws other_error\<rparr>)) =
     Inr \<lparr>success = False, error = Some generic_message\<rparr> \<and>
   fst (saveTodos iso_platform (Untyped (Inl circular_error)) empty_world) =
     Inr \<lparr>success = False, error = Some generic_message\<rparr> \<and>
   calls (snd (saveTodos iso_platform (Untyped (Inl circular_error)) empty_world)) = [] \<and>
   console (snd (saveTodos iso_platform (Untyped (Inl circular_error)) empty_world)) =
     [[LogStr (asc ''Failed to save todos to sessionStorage:''), LogErr circular_error]]"
  using saveTodos_never_throws [of iso_platform "Typed [ex_todo ''1'' False]" empty_world]
    saveTodos_never_throws [of iso_platform "Typed [ex_todo ''1'' False]"
      "empty_world\<lparr>faults := setItem_throws quota_error\<rparr>"]
    saveTodos_never_throws [of iso_platform "Typed [ex_todo ''1'' False]"
      "empty_world\<lparr>faults := setItem_throws other_error\<rparr>"]
    saveTodos_never_throws [of iso_platform "Untyped (Inl circular_error)" empty_world]
  by (simp add: JSON_stringify_call_def empty_world_def setItem_throws_def quota_error_def
      other_error_def circular_error_def asc_def)

text \<open>
  C10. When the stored value is the empty string, \<open>loadTodos\<close> returns the empty array
  and does nothing but the read: no warning, no removal of the key, as for an absent value.
\<close>

theorem loadTodos_empty_string:
  assumes "faults w (calls w) (GetItem STORAGE_KEY) = None"
    and "storage w STORAGE_KEY = Some []"
  shows "loadTodos P w = (Inr [], w\<lparr>calls := calls w @ [GetItem STORAGE_KEY]\<rparr>) \<and>
         loadTodos P (w\<lparr>storage := (storage w)(STORAGE_KEY := None)\<rparr>) =
           (Inr [], w\<lparr>storage := (storage w)(STORAGE_KEY := None),
                      calls := calls w @ [GetItem STORAGE_KEY]\<rparr>)"
  using assms by (simp add: loadTodos_def loadTodos_try_def getItem_def)

theorem loadTodos_empty_string_witness:
  "fst (loadTodos iso_platform (empty_world\<lparr>storage := [STORAGE_KEY \<mapsto> []]\<rparr>)) = Inr [] \<and>
   console (snd (loadTodos iso_platform (empty_world\<lparr>storage := [STORAGE_KEY \<mapsto> []]\<rparr>))) = [] \<and>
   calls (snd (loadTodos iso_platform (empty_world\<lparr>storage := [STORAGE_KEY \<mapsto> []]\<rparr>))) = [GetItem STORAGE_KEY] \<and>
   storage (snd (loadTodos iso_platform (empty_world\<lparr>storage := [STORAGE_KEY \<mapsto> []]\<rparr>))) STORAGE_KEY = Some []"
proof -
  let ?w = "empty_world\<lparr>storage := [STORAGE_KEY \<mapsto> []]\<rparr>"
  have a: "faults ?w (calls ?w) (GetItem STORAGE_KEY) = None" by (simp add: empty_world_def)
  have b: "storage ?w STORAGE_KEY = Some []" by simp
  from loadTodos_empty_string [OF a b, of iso_platform] show ?thesis
    by (simp add: empty_world_def)
qed

section \<open>The storage adapter: loading corrupted data\<close>

lemma JSON_parse_fuel: "2 * length s + 2 = Suc (Suc (Suc (Suc (Suc (2 * length s - 3)))))" if "2 \<le> length s"
  using that by simp

lemma parse_value_not_json: "parse_value (Suc n) (0x69 # r) = None"
  by (simp add: parse_number_def parse_sign_def parse_int_def is_digit_def)

lemma parse_elements_single:
  assumes "parse_value n s = Some (v, c_rbracket # r)"
  shows "parse_elements (Suc n) s = Some ([v], r)"
  using assms by (simp add: skip_ws_def is_ws_def)

lemma parse_value_object:
  assumes "parse_members n (c_quote # r) = Some (ps, r')"
  shows "parse_value (Suc n) (c_lbrace # c_quote # r) = Some (JObj (build_object ps), r')"
  using assms by (simp add: skip_ws_def is_ws_def del: parse_members.simps)

lemma JSON_parse_corrupt_text: "JSON_parse corrupt_text = None"
proof -
  obtain r where r: "skip_ws corrupt_text = 0x69 # r"
    by (simp add: corrupt_text_def asc_def skip_ws_def is_ws_def)
  have "2 \<le> length corrupt_text" by (simp add: corrupt_text_def asc_def)
  then show ?thesis
    unfolding JSON_parse_def r
    by (subst JSON_parse_fuel) (simp_all only: parse_value_not_json option.case)
qed

lemma parse_value_invalid_structure:
  "parse_value (Suc (Suc (Suc (Suc (Suc n))))) invalid_structure_text =
     Some (JArr [JObj [(asc ''invalid'', JStr (asc ''structure''))]], [])"
proof -
  have pm: "parse_members (Suc (Suc n))
      (member ''invalid'' (quote (asc ''structure'')) @ c_rbrace # [c_rbracket]) =
      Some ([(asc ''invalid'', JStr (asc ''structure''))], [c_rbracket])"
    by (rule parse_members_last) (simp_all only: parse_value_quote skip_ws_quote)
  obtain r where r: "member ''invalid'' (quote (asc ''structure'')) @ c_rbrace # [c_rbracket] = c_quote # r"
    by (simp add: member_Cons)
  have bo: "build_object [(asc ''invalid'', JStr (asc ''structure''))] = [(asc ''invalid'', JStr (asc ''structure''))]"
    by (simp add: build_object_def)
  have po: "parse_value (Suc (Suc (Suc n))) (c_lbrace # c_quote # r) =
      Some (JObj [(asc ''invalid'', JStr (asc ''structure''))], [c_rbracket])"
    using parse_value_object [OF pm [unfolded r]] unfolding bo .
  have pe: "parse_elements (Suc (Suc (Suc (Suc n)))) (c_lbrace # c_quote # r) =
      Some ([JObj [(asc ''invalid'', JStr (asc ''structure''))]], [])"
    using po by (rule parse_elements_single)
  have tx: "invalid_structure_text = c_lbracket # c_lbrace # c_quote # r"
    using r by (simp add: invalid_structure_text_def)
  show ?thesis
    unfolding tx using pe by (rule parse_value_array)
qed

lemma JSON_parse_invalid_structure:
  "JSON_parse invalid_structure_text =
     Some (JArr [JObj [(asc ''invalid'', JStr (asc ''structure''))]])"
proof -
  have sk: "skip_ws invalid_structure_text = invalid_structure_text"
    by (simp add: invalid_structure_text_def skip_ws_def is_ws_def)
  have "2 \<le> length invalid_structure_text" by (simp add: invalid_structure_text_def)
  then show ?thesis
    unfolding JSON_parse_def sk
    by (subst JSON_parse_fuel) (simp_all add: parse_value_invalid_structure skip_ws_def del: parse_value.simps)
qed

lemma invalid_structure_not_valid:
  "\<not> isValidTodos (JArr [JObj [(asc ''invalid'', JStr (asc ''structure''))]])"
  by (simp add: isValidTodos_def isValidTodos_item_def asc_def)

lemma invalid_structure_text_ne: "invalid_structure_text \<noteq> []"
  by (simp add: invalid_structure_text_def)

lemma corrupt_text_ne: "corrupt_text \<noteq> []"
  by (simp add: corrupt_text_def asc_def)

text \<open>
  C3, as stated, fails in the shape-validation branch: there \<open>removeItem\<close> stands inside
  the \<open>try\<close> block, so when it throws, the handler logs a second warning that carries
  the exception and tries the removal again. Only the failure of that second attempt is
  swallowed silently.
\<close>

theorem loadTodos_removal_failure_is_logged:
  "fst (loadTodos iso_platform
          (empty_world\<lparr>storage := [STORAGE_KEY \<mapsto> invalid_structure_text],
                        faults := removeItem_throws other_error\<rparr>)) = Inr [] \<and>
   console (snd (loadTodos iso_platform
          (empty_world\<lparr>storage := [STORAGE_KEY \<mapsto> invalid_structure_text],
                        faults := removeItem_throws other_error\<rparr>))) =
     [[LogStr (asc ''Invalid todos data in sessionStorage, clearing and using empty array'')],
      [LogStr (asc ''Failed to load todos from sessionStorage:''), LogErr other_error]] \<and>
   calls (snd (loadTodos iso_platform
          (empty_world\<lparr>storage := [STORAGE_KEY \<mapsto> invalid_structure_text],
                        faults := removeItem_throws other_error\<rparr>))) =
     [GetItem STORAGE_KEY, RemoveItem STORAGE_KEY, RemoveItem STORAGE_KEY]"
  by (simp add: loadTodos_def loadTodos_try_def getItem_def removeItem_def console_warn_def
      empty_world_def removeItem_throws_def JSON_parse_invalid_structure
      invalid_structure_not_valid invalid_structure_text_ne)

text \<open>
  C3, amended. Let the read succeed with a non-empty stored value. If the value fails to
  parse, \<open>loadTodos\<close> logs one warning (with the parse error), calls \<open>removeItem\<close> once
  and returns the empty array; a failure of that removal is swallowed silently and leaves
  the key in place. If the parsed value fails the shape predicate, \<open>loadTodos\<close> logs the
  distinct warning and calls \<open>removeItem\<close>; when that succeeds the key is deleted; when
  it throws, a second warning with the exception is logged and the removal is tried once
  more, a failure of which is swallowed silently. In every case the outcome is the empty
  array, never an exception.
\<close>

theorem loadTodos_corrupt_data:
  assumes "faults w (calls w) (GetItem STORAGE_KEY) = None"
    and "storage w STORAGE_KEY = Some text"
    and "text \<noteq> []"
  shows
    "(JSON_parse text = None \<longrightarrow>
        fst (loadTodos P w) = Inr [] \<and>
        console (snd (loadTodos P w)) =
          console w @ [[LogStr (asc ''Failed to load todos from sessionStorage:''), LogErr SyntaxError]] \<and>
        calls (snd (loadTodos P w)) = calls w @ [GetItem STORAGE_KEY, RemoveItem STORAGE_KEY] \<and>
        storage (snd (loadTodos P w)) =
          (if faults w (calls w @ [GetItem STORAGE_KEY]) (RemoveItem STORAGE_KEY) = None
           then (storage w)(STORAGE_KEY := None) else storage w)) \<and>
     (\<forall>v. JSON_parse text = Some v \<and> \<not> isValidTodos v \<longrightarrow>
        fst (loadTodos P w) = Inr [] \<and>
        (case faults w (calls w @ [GetItem STORAGE_KEY]) (RemoveItem STORAGE_KEY) of
           None \<Rightarrow>
             console (snd (loadTodos P w)) =
               console w @ [[LogStr (asc ''Invalid todos data in sessionStorage, clearing and using empty array'')]] \<and>
             calls (snd (loadTodos P w)) = calls w @ [GetItem STORAGE_KEY, RemoveItem STORAGE_KEY] \<and>
             storage (snd (loadTodos P w)) = (storage w)(STORAGE_KEY := None)
         | Some e \<Rightarrow>
             console (snd (loadTodos P w)) =
               console w @
                 [[LogStr (asc ''Invalid todos data in sessionStorage, clearing and using empty array'')],
                  [LogStr (asc ''Failed to load todos from sessionStorage:''), LogErr e]] \<and>
             calls (snd (loadTodos P w)) =
               calls w @ [GetItem STORAGE_KEY, RemoveItem STORAGE_KEY, RemoveItem STORAGE_KEY] \<and>
             storage (snd (loadTodos P w)) =
               (if faults w (calls w @ [GetItem STORAGE_KEY, RemoveItem STORAGE_KEY])
                     (RemoveItem STORAGE_KEY) = None
                then (storage w)(STORAGE_KEY := None) else storage w)))"
  using assms
  by (auto simp: loadTodos_def loadTodos_try_def getItem_def removeItem_def console_warn_def
      split: option.splits)

theorem loadTodos_corrupt_data_witness:
  "fst (loadTodos iso_platform (empty_world\<lparr>storage := [STORAGE_KEY \<mapsto> corrupt_text]\<rparr>)) = Inr [] \<and>
   storage (snd (loadTodos iso_platform (empty_world\<lparr>storage := [STORAGE_KEY \<mapsto> corrupt_text]\<rparr>)))
     STORAGE_KEY = None \<and>
   console (snd (loadTodos iso_platform
      (empty_world\<lparr>storage := [STORAGE_KEY \<mapsto> corrupt_text],
                    faults := removeItem_throws other_error\<rparr>))) =
     [[LogStr (asc ''Failed to load todos from sessionStorage:''), LogErr SyntaxError]] \<and>
   storage (snd (loadTodos iso_platform
      (empty_world\<lparr>storage := [STORAGE_KEY \<mapsto> corrupt_text],
                    faults := removeItem_throws other_error\<rparr>))) STORAGE_KEY = Some corrupt_text \<and>
   fst (loadTodos iso_platform (empty_world\<lparr>storage := [STORAGE_KEY \<mapsto> invalid_structure_text]\<rparr>)) = Inr [] \<and>
   storage (snd (loadTodos iso_platform
      (empty_world\<lparr>storage := [STORAGE_KEY \<mapsto> invalid_structure_text]\<rparr>))) STORAGE_KEY = None \<and>
   console (snd (loadTodos iso_platform
      (empty_world\<lparr>storage := [STORAGE_KEY \<mapsto> invalid_structure_text]\<rparr>))) =
     [[LogStr (asc ''Invalid todos data in sessionStorage, clearing and using empty array'')]]"
proof -
  let ?w1 = "empty_world\<lparr>storage := [STORAGE_KEY \<mapsto> corrupt_text]\<rparr>"
  let ?w2 = "empty_world\<lparr>storage := [STORAGE_KEY \<mapsto> corrupt_text],
                    faults := removeItem_throws other_error\<rparr>"
  let ?w3 = "empty_world\<lparr>storage := [STORAGE_KEY \<mapsto> invalid_structure_text]\<rparr>"
  have 1: "faults ?w1 (calls ?w1) (GetItem STORAGE_KEY) = None" "storage ?w1 STORAGE_KEY = Some corrupt_text"
    by (simp_all add: empty_world_def)
  have 2: "faults ?w2 (calls ?w2) (GetItem STORAGE_KEY) = None" "storage ?w2 STORAGE_KEY = Some corrupt_text"
    by (simp_all add: empty_world_def removeItem_throws_def)
  have 3: "faults ?w3 (calls ?w3) (GetItem STORAGE_KEY) = None"
    "storage ?w3 STORAGE_KEY = Some invalid_structure_text"
    by (simp_all add: empty_world_def)
  note a = loadTodos_corrupt_data [OF 1 corrupt_text_ne, of iso_platform]
  note b = loadTodos_corrupt_data [OF 2 corrupt_text_ne, of iso_platform]
  note c = loadTodos_corrupt_data [OF 3 invalid_structure_text_ne, of iso_platform]
  from a b c show ?thesis
    by (simp add: JSON_parse_corrupt_text JSON_parse_invalid_structure invalid_structure_not_valid
        empty_world_def removeItem_throws_def)
qed

section \<open>The storage adapter: loading what was saved\<close>

lemma saveTodos_success:
  assumes "saveTodos P (Typed S) w = (Inr r, w1)" and "success r"
  shows "w1 = w\<lparr>storage := (storage w)(STORAGE_KEY \<mapsto> JSON_stringify P S),
                  calls := calls w @ [SetItem STORAGE_KEY (JSON_stringify P S)]\<rparr>"
  using assms
  by (auto simp: saveTodos_cases JSON_stringify_call_def split: option.splits if_splits)

lemma isValidTodos_item_toJSON:
  "createdAt t = ValidDate ti \<Longrightarrow> isValidTodos_item (todo_toJSON P t)"
  by (simp add: isValidTodos_item_def todo_toJSON_def asc_def)

lemma loadTodos_item_toJSON:
  assumes "createdAt t = ValidDate ti" and "Date_parse P (toISOString P ti) = ValidDate ti"
  shows "loadTodos_item P (todo_toJSON P t) = js_of_todo t"
  using assms
  by (simp add: loadTodos_item_def todo_toJSON_def js_of_todo_def asc_def)

lemma JSON_stringify_ne: "JSON_stringify P S \<noteq> []"
  by (simp add: JSON_stringify_def)

lemma loadTodos_stored_todos:
  assumes valid: "\<forall>t \<in> set S. \<exists>ti. createdAt t = ValidDate ti \<and>
                    Date_parse P (toISOString P ti) = ValidDate ti"
    and st: "storage w STORAGE_KEY = Some (JSON_stringify P S)"
    and get: "faults w (calls w) (GetItem STORAGE_KEY) = None"
  shows "loadTodos P w = (Inr (map js_of_todo S), w\<lparr>calls := calls w @ [GetItem STORAGE_KEY]\<rparr>)"
proof -
  have v: "isValidTodos (JArr (map (todo_toJSON P) S))"
    using valid isValidTodos_item_toJSON
    by (auto simp: isValidTodos_def list_all_iff)
  have m: "map (loadTodos_item P) (map (todo_toJSON P) S) = map js_of_todo S"
    using valid loadTodos_item_toJSON by auto
  show ?thesis
    using st get v m
    by (simp add: loadTodos_def loadTodos_try_def getItem_def JSON_parse_stringify JSON_stringify_ne)
qed

text \<open>
  C1, as stated, fails for a sequence that \<open>isValidTodos\<close> accepts but whose
  \<open>createdAt\<close> is an invalid \<open>Date\<close> (the \<open>Date\<close> that \<open>loadTodos\<close> itself builds from
  a stored string that is no date): it is written as \<open>null\<close>, the stored array then
  fails the shape predicate, and \<open>loadTodos\<close> returns the empty array and clears the key.
\<close>

theorem loadTodos_after_saveTodos_invalid_date:
  "isValidTodos (JArr [js_of_todo ex_invalid_date]) \<and>
   fst (saveTodos iso_platform (Typed [ex_invalid_date]) empty_world) =
     Inr \<lparr>success = True, error = None\<rparr> \<and>
   fst (loadTodos iso_platform (snd (saveTodos iso_platform (Typed [ex_invalid_date]) empty_world))) =
     Inr [] \<and>
   storage (snd (loadTodos iso_platform (snd (saveTodos iso_platform (Typed [ex_invalid_date]) empty_world))))
     STORAGE_KEY = None"
proof -
  have v: "isValidTodos (JArr [js_of_todo ex_invalid_date])"
    by (simp add: isValidTodos_def isValidTodos_item_def js_of_todo_def ex_invalid_date_def asc_def)
  have p: "JSON_parse (JSON_stringify iso_platform [ex_invalid_date]) =
      Some (JArr [todo_toJSON iso_platform ex_invalid_date])"
    using JSON_parse_stringify [of iso_platform "[ex_invalid_date]"] by simp
  have n: "\<not> isValidTodos (JArr [todo_toJSON iso_platform ex_invalid_date])"
    by (simp add: isValidTodos_def isValidTodos_item_def todo_toJSON_def ex_invalid_date_def asc_def)
  show ?thesis
    using v p n
    by (simp add: saveTodos_cases JSON_stringify_call_def loadTodos_def loadTodos_try_def
        getItem_def removeItem_def console_warn_def empty_world_def JSON_stringify_ne)
qed

text \<open>
  C1, amended. Let \<open>S\<close> be a sequence of \<open>Todo\<close> records whose \<open>createdAt\<close> fields are dates that
  denote an instant, and let the platform read back the ISO string it writes for each of
  these instants (ECMAScript requires this of \<open>Date.parse\<close> and \<open>toISOString\<close>). After
  \<open>saveTodos(S)\<close> has succeeded, \<open>loadTodos()\<close>, with no failure of the read, returns
  the records of \<open>S\<close>, field by field, each \<open>createdAt\<close> a date of the same instant; it
  logs nothing and leaves the stored text as it was written.
\<close>

theorem loadTodos_after_saveTodos:
  assumes "\<forall>t \<in> set S. \<exists>ti. createdAt t = ValidDate ti \<and>
              Date_parse P (toISOString P ti) = ValidDate ti"
    and "saveTodos P (Typed S) w = (Inr r, w1)"
    and "success r"
    and "faults w1 (calls w1) (GetItem STORAGE_KEY) = None"
  shows "fst (loadTodos P w1) = Inr (map js_of_todo S) \<and>
         as_Todos (map js_of_todo S) = S \<and>
         console (snd (loadTodos P w1)) = console w \<and>
         storage (snd (loadTodos P w1)) STORAGE_KEY = Some (JSON_stringify P S)"
proof -
  have w1: "w1 = w\<lparr>storage := (storage w)(STORAGE_KEY \<mapsto> JSON_stringify P S),
                  calls := calls w @ [SetItem STORAGE_KEY (JSON_stringify P S)]\<rparr>"
    using assms(2,3) by (rule saveTodos_success)
  have st: "storage w1 STORAGE_KEY = Some (JSON_stringify P S)" by (simp add: w1)
  have l: "loadTodos P w1 = (Inr (map js_of_todo S), w1\<lparr>calls := calls w1 @ [GetItem STORAGE_KEY]\<rparr>)"
    using assms(1) st assms(4) by (rule loadTodos_stored_todos)
  have t: "todo_of_js (js_of_todo x) = Some x" for x
    by (simp add: todo_of_js_def js_of_todo_def asc_def)
  have a: "as_Todos (map js_of_todo S) = S"
    by (induction S) (simp_all add: as_Todos_def List.map_filter_simps t)
  show ?thesis
    using l a by (simp add: w1)
qed

theorem loadTodos_after_saveTodos_witness:
  "fst (loadTodos iso_platform (snd (saveTodos iso_platform (Typed [ex_todo ''1'' False]) empty_world))) =
     Inr [js_of_todo (ex_todo ''1'' False)] \<and>
   get_prop (js_of_todo (ex_todo ''1'' False)) (asc ''createdAt'') = JDate (ValidDate 1672531200000)"
proof -
  let ?S = "[ex_todo ''1'' False]"
  obtain r w1 where s: "saveTodos iso_platform (Typed ?S) empty_world = (Inr r, w1)" and r: "success r"
    and w1: "w1 = empty_world\<lparr>storage := [STORAGE_KEY \<mapsto> JSON_stringify iso_platform ?S],
                  calls := [SetItem STORAGE_KEY (JSON_stringify iso_platform ?S)]\<rparr>"
    by (simp add: saveTodos_cases JSON_stringify_call_def empty_world_def)
  have v: "\<forall>t \<in> set ?S. \<exists>ti. createdAt t = ValidDate ti \<and>
      Date_parse iso_platform (toISOString iso_platform ti) = ValidDate ti"
    by (simp add: ex_todo_def iso_platform_2023)
  have g: "faults w1 (calls w1) (GetItem STORAGE_KEY) = None"
    by (simp add: w1 empty_world_def)
  from loadTodos_after_saveTodos [OF v s r g] s show ?thesis
    by (simp add: js_of_todo_def ex_todo_def asc_def)
qed

section \<open>The state owner: hydration and persistence\<close>

lemma loadTodos_returns: "\<exists>loaded w1. loadTodos P w = (Inr loaded, w1)"
  by (auto simp: loadTodos_def split: prod.splits sum.splits)

lemma calls_saveTodos:
  "calls (snd (saveTodos P (Typed xs) w)) = calls w @ [SetItem STORAGE_KEY (JSON_stringify P xs)]"
  by (auto simp: saveTodos_cases JSON_stringify_call_def console_warn_def split: option.splits)

lemma saveTodos_returns: "\<exists>r w1. saveTodos P x w = (Inr r, w1)"
  by (simp add: saveTodos_cases split: sum.splits option.splits)

lemma persist_effect_frame:
  "calls (world_of (persist_effect P now a)) =
     calls (world_of a) @ [SetItem STORAGE_KEY (JSON_stringify P (todos (prov a)))] \<and>
   prov (persist_effect P now a) = prov a \<and>
   uncaught (persist_effect P now a) = uncaught a"
proof -
  obtain r w1 where s: "saveTodos P (Typed (todos (prov a))) (world_of a) = (Inr r, w1)"
    using saveTodos_returns by blast
  have c: "calls w1 = calls (world_of a) @ [SetItem STORAGE_KEY (JSON_stringify P (todos (prov a)))]"
    using calls_saveTodos [of P "todos (prov a)" "world_of a"] s by simp
  show ?thesis
    using s c by (auto simp: persist_effect_def split: option.splits)
qed

lemma setTodos_new_array:
  assumes "fst arr \<noteq> todos_ref (prov a)" and "effect_deps (prov a) = Some (todos_ref (prov a))"
  shows "todos (prov (setTodos P now arr a)) = snd arr \<and>
         todos_ref (prov (setTodos P now arr a)) = fst arr \<and>
         next_ref (prov (setTodos P now arr a)) = next_ref (prov a) \<and>
         effect_deps (prov (setTodos P now arr a)) = Some (fst arr) \<and>
         calls (world_of (setTodos P now arr a)) =
           calls (world_of a) @ [SetItem STORAGE_KEY (JSON_stringify P (snd arr))]"
  using assms
  by (simp add: setTodos_def commit_def persist_effect_frame)

lemma as_Todos_js_of_todo: "as_Todos (map js_of_todo S) = S"
proof -
  have t: "todo_of_js (js_of_todo x) = Some x" for x
    by (simp add: todo_of_js_def js_of_todo_def asc_def)
  show ?thesis
    by (induction S) (simp_all add: as_Todos_def List.map_filter_simps t)
qed

lemma TodoProvider_mount:
  assumes "loadTodos P w = (Inr loaded, w1)"
  shows "todos (prov (TodoProvider P now ts w)) = as_Todos loaded \<and>
         todos_ref (prov (TodoProvider P now ts w)) = 0 \<and>
         next_ref (prov (TodoProvider P now ts w)) = 1 \<and>
         effect_deps (prov (TodoProvider P now ts w)) = Some 0 \<and>
         calls (world_of (TodoProvider P now ts w)) =
           calls w1 @ [SetItem STORAGE_KEY (JSON_stringify P (as_Todos loaded))]"
  using assms by (simp add: TodoProvider_def commit_def persist_effect_frame)

lemma op_new_array:
  assumes "settled a"
  shows "todos (prov (setTodos P now (fst (new_array xs a)) (snd (new_array xs a)))) = xs \<and>
         todos_ref (prov (setTodos P now (fst (new_array xs a)) (snd (new_array xs a)))) =
           next_ref (prov a) \<and>
         settled (setTodos P now (fst (new_array xs a)) (snd (new_array xs a))) \<and>
         calls (world_of (setTodos P now (fst (new_array xs a)) (snd (new_array xs a)))) =
           calls (world_of a) @ [SetItem STORAGE_KEY (JSON_stringify P xs)]"
proof -
  let ?a = "snd (new_array xs a)"
  let ?arr = "fst (new_array xs a)"
  have 1: "fst ?arr \<noteq> todos_ref (prov ?a)" using assms by (simp add: new_array_def settled_def)
  have 2: "effect_deps (prov ?a) = Some (todos_ref (prov ?a))"
    using assms by (simp add: new_array_def settled_def)
  note s = setTodos_new_array [OF 1 2, of P now]
  then show ?thesis
    by (simp add: new_array_def settled_def)
qed

lemma loadTodos_stored_world:
  "loadTodos iso_platform stored_world =
     (Inr [js_of_todo (ex_todo ''1'' False)], stored_world\<lparr>calls := [GetItem STORAGE_KEY]\<rparr>)"
proof -
  have v: "\<forall>t \<in> set [ex_todo ''1'' False]. \<exists>ti. createdAt t = ValidDate ti \<and>
      Date_parse iso_platform (toISOString iso_platform ti) = ValidDate ti"
    by (simp add: ex_todo_def iso_platform_2023)
  have st: "storage stored_world STORAGE_KEY = Some (JSON_stringify iso_platform [ex_todo ''1'' False])"
    by (simp add: stored_world_def)
  have g: "faults stored_world (calls stored_world) (GetItem STORAGE_KEY) = None"
    by (simp add: stored_world_def empty_world_def)
  from loadTodos_stored_todos [OF v st g] show ?thesis
    by (simp add: stored_world_def empty_world_def)
qed

text \<open>
  C4, as stated, fails: the effect that persists the collection also runs after the first
  render, so constructing the state owner writes the collection it has just loaded, before
  any operation. (The repository's test expects this write: "once for initial empty array".)
\<close>

theorem TodoProvider_saves_what_it_loaded:
  "todos (prov (TodoProvider iso_platform 0 no_toasts stored_world)) = [ex_todo ''1'' False] \<and>
   calls (world_of (TodoProvider iso_platform 0 no_toasts stored_world)) =
     [GetItem STORAGE_KEY,
      SetItem STORAGE_KEY (JSON_stringify iso_platform [ex_todo ''1'' False])]"
  using TodoProvider_mount [OF loadTodos_stored_world, of 0 no_toasts]
    as_Todos_js_of_todo [of "[ex_todo ''1'' False]"]
  by simp

text \<open>
  C4, amended. Constructing the state owner hydrates the collection from \<open>loadTodos\<close>
  and then, as the effect of the first render, calls \<open>saveTodos\<close> once with the collection
  just loaded. After that a render with the same array writes nothing: the next write comes
  when an operation passes a new array to \<open>setTodos\<close>.
\<close>

theorem TodoProvider_saves_on_mount:
  "\<exists>loaded w1.
     loadTodos P w = (Inr loaded, w1) \<and>
     todos (prov (TodoProvider P now ts w)) = as_Todos loaded \<and>
     calls (world_of (TodoProvider P now ts w)) =
       calls w1 @ [SetItem STORAGE_KEY (JSON_stringify P (as_Todos loaded))] \<and>
     settled (TodoProvider P now ts w) \<and>
     commit P now' (TodoProvider P now ts w) = TodoProvider P now ts w"
proof -
  obtain loaded w1 where l: "loadTodos P w = (Inr loaded, w1)"
    using loadTodos_returns by blast
  note m = TodoProvider_mount [OF l, of now ts]
  have s: "settled (TodoProvider P now ts w)" using m by (simp add: settled_def)
  have c: "commit P now' (TodoProvider P now ts w) = TodoProvider P now ts w"
    using m by (simp add: commit_def)
  show ?thesis using l m s c by blast
qed

theorem TodoProvider_saves_on_mount_witness:
  "calls (world_of (TodoProvider iso_platform 0 no_toasts empty_world)) =
     [GetItem STORAGE_KEY, SetItem STORAGE_KEY [c_lbracket, c_rbracket]] \<and>
   todos (prov (TodoProvider iso_platform 0 no_toasts empty_world)) = []"
proof -
  have l: "loadTodos iso_platform empty_world = (Inr [], empty_world\<lparr>calls := [GetItem STORAGE_KEY]\<rparr>)"
    by (simp add: loadTodos_def loadTodos_try_def getItem_def empty_world_def)
  from TodoProvider_saves_on_mount [of iso_platform empty_world 0 no_toasts 0] l show ?thesis
    by (auto simp: as_Todos_def List.map_filter_simps JSON_stringify_def)
qed

text \<open>
  C8, as stated, fails: \<open>todos.map\<close> returns a new array, so the reference held by the
  state owner changes although the records do not. (This is why the write happens: with an
  unchanged reference \<open>setTodos\<close> would cause no render and no effect.)
\<close>

theorem toggleTodoCompletion_changes_reference:
  "todos_ref (prov (TodoProvider iso_platform 0 no_toasts stored_world)) = 0 \<and>
   todos_ref (prov (toggleTodoCompletion iso_platform 1 (asc ''missing'')
                      (TodoProvider iso_platform 0 no_toasts stored_world))) = 1 \<and>
   todos (prov (toggleTodoCompletion iso_platform 1 (asc ''missing'')
                  (TodoProvider iso_platform 0 no_toasts stored_world))) =
     todos (prov (TodoProvider iso_platform 0 no_toasts stored_world))"
proof -
  let ?a = "TodoProvider iso_platform 0 no_toasts stored_world"
  note m = TodoProvider_mount [OF loadTodos_stored_world, of 0 no_toasts]
  have s: "settled ?a" using m by (simp add: settled_def)
  have t: "toggleTodoCompletion_array (todos (prov ?a)) (asc ''missing'') = todos (prov ?a)"
    using m as_Todos_js_of_todo [of "[ex_todo ''1'' False]"]
    by (simp add: toggleTodoCompletion_array_def ex_todo_def asc_def)
  note o = op_new_array [OF s, of iso_platform 1 "toggleTodoCompletion_array (todos (prov ?a)) (asc ''missing'')"]
  show ?thesis
    using m o t by (simp add: toggleTodoCompletion_def split_beta)
qed

text \<open>
  C8, amended. For every id that matches no record, \<open>toggleTodoCompletion(id)\<close> leaves
  the records of the collection unchanged, in a new array (the reference changes), and
  triggers exactly one persistence write of the unchanged collection via \<open>saveTodos\<close>.
\<close>

theorem toggleTodoCompletion_no_match:
  assumes "settled a" and "\<forall>r \<in> set (todos (prov a)). todo_id r \<noteq> i"
  shows "todos (prov (toggleTodoCompletion P enow i a)) = todos (prov a) \<and>
         todos_ref (prov (toggleTodoCompletion P enow i a)) \<noteq> todos_ref (prov a) \<and>
         calls (world_of (toggleTodoCompletion P enow i a)) =
           calls (world_of a) @ [SetItem STORAGE_KEY (JSON_stringify P (todos (prov a)))] \<and>
         settled (toggleTodoCompletion P enow i a)"
proof -
  have t: "toggleTodoCompletion_array (todos (prov a)) i = todos (prov a)"
    using assms(2) by (rule toggle_no_match)
  note o = op_new_array [OF assms(1), of P enow "toggleTodoCompletion_array (todos (prov a)) i"]
  show ?thesis
    using o t assms(1) by (simp add: toggleTodoCompletion_def split_beta settled_def)
qed

theorem toggleTodoCompletion_no_match_witness:
  "calls (world_of (toggleTodoCompletion iso_platform 1 (asc ''missing'')
                      (TodoProvider iso_platform 0 no_toasts stored_world))) =
     [GetItem STORAGE_KEY,
      SetItem STORAGE_KEY (JSON_stringify iso_platform [ex_todo ''1'' False]),
      SetItem STORAGE_KEY (JSON_stringify iso_platform [ex_todo ''1'' False])]"
proof -
  let ?a = "TodoProvider iso_platform 0 no_toasts stored_world"
  note m = TodoProvider_mount [OF loadTodos_stored_world, of 0 no_toasts]
  have s: "settled ?a" using m by (simp add: settled_def)
  have td: "todos (prov ?a) = [ex_todo ''1'' False]"
    using m as_Todos_js_of_todo [of "[ex_todo ''1'' False]"] by simp
  have n: "\<forall>r \<in> set (todos (prov ?a)). todo_id r \<noteq> asc ''missing''"
    by (simp add: td ex_todo_def asc_def)
  from toggleTodoCompletion_no_match [OF s n, of iso_platform 1] m td show ?thesis
    by simp
qed

section \<open>The bound of the recursive descent\<close>

lemma length_skip_ws: "length (skip_ws s) \<le> length s"
  by (simp add: skip_ws_def length_dropWhile_le)

lemma parse_string_shorter: "parse_string cs = Some (s, r) \<Longrightarrow> length r < length cs"
proof (induction cs arbitrary: s r rule: parse_string.induct)
  case 1
  then show ?case by simp
next
  case (2 c cs)
  then show ?case
    by (fastforce simp: cons_result_def split: if_splits list.splits option.splits prod.splits)
qed

lemma strip_prefix_length: "strip_prefix p s = Some r \<Longrightarrow> length r + length p = length s"
  by (induction p s rule: strip_prefix.induct) (auto split: if_splits)

lemma parse_number_shorter: "parse_number s = Some (lit, r) \<Longrightarrow> length r < length s"
proof -
  assume a: "parse_number s = Some (lit, r)"
  have dw: "\<And>xs. length (dropWhile is_digit xs) \<le> length xs" by (simp add: length_dropWhile_le)
  have sg: "\<And>s a b. parse_sign s = (a, b) \<Longrightarrow> length b \<le> length s"
    by (auto simp: parse_sign_def split: list.splits if_splits)
  have pi: "\<And>s a b. parse_int s = Some (a, b) \<Longrightarrow> length b < length s"
    using dw by (auto simp: parse_int_def le_imp_less_Suc split: list.splits if_splits)
  have pf: "\<And>s a b. parse_frac s = Some (a, b) \<Longrightarrow> length b \<le> length s"
    using dw by (auto simp: parse_frac_def le_SucI split: list.splits if_splits)
  have es: "\<And>s a b. parse_exp_sign s = (a, b) \<Longrightarrow> length b \<le> length s"
    by (auto simp: parse_exp_sign_def split: list.splits if_splits)
  have pe: "\<And>s a b. parse_exp s = Some (a, b) \<Longrightarrow> length b \<le> length s"
  proof -
    fix s a b assume "parse_exp s = Some (a, b)"
    then show "length b \<le> length s"
      using dw es
      by (auto simp: parse_exp_def split: list.splits if_splits prod.splits)
         (meson le_SucI le_trans)+
  qed
  obtain sg' s1 where 1: "parse_sign s = (sg', s1)" by (cases "parse_sign s")
  from a 1 obtain ds s2 where 2: "parse_int s1 = Some (ds, s2)"
    by (auto simp: parse_number_def split: option.splits)
  from a 1 2 obtain fr s3 where 3: "parse_frac s2 = Some (fr, s3)"
    by (auto simp: parse_number_def split: option.splits)
  from a 1 2 3 obtain ex where 4: "parse_exp s3 = Some (ex, r)"
    by (auto simp: parse_number_def split: option.splits)
  from sg [OF 1] pi [OF 2] pf [OF 3] pe [OF 4] show ?thesis by linarith
qed

lemma value_shorter:
  "parse_value n s = Some (v, r) \<Longrightarrow> length r < length s"
  and elements_shorter: "parse_elements n s = Some (vs, r) \<Longrightarrow> length r < length s"
  and members_shorter: "parse_members n s = Some (ps, r) \<Longrightarrow> length r < length s"
proof (induction n s and n s and n s arbitrary: v r and vs r and ps r
    rule: parse_value_parse_elements_parse_members.induct)
  case (1 s)
  then show ?case by simp
next
  case (2 n s)
  from "2.prems" obtain c cs where s: "s = c # cs" by (cases s) auto
  consider (str) "c = c_quote" | (arr) "c \<noteq> c_quote" "c = c_lbracket"
    | (obj) "c \<noteq> c_quote" "c \<noteq> c_lbracket" "c = c_lbrace"
    | (other) "c \<noteq> c_quote" "c \<noteq> c_lbracket" "c \<noteq> c_lbrace" by blast
  then show ?case
  proof cases
    case str
    with "2.prems" s obtain str' where "parse_string cs = Some (str', r)"
      by (auto split: option.splits)
    then show ?thesis using parse_string_shorter s by fastforce
  next
    case arr
    show ?thesis
    proof (cases "skip_ws cs")
      case Nil
      with "2.prems" s arr show ?thesis by simp
    next
      case (Cons d r0)
      have le: "length (d # r0) \<le> length cs" using length_skip_ws [of cs] Cons by simp
      show ?thesis
      proof (cases "d = c_rbracket")
        case True
        with "2.prems" s arr Cons have "r = r0" by simp
        with le s show ?thesis by simp
      next
        case False
        with "2.prems" s arr Cons obtain vs where pe: "parse_elements n (d # r0) = Some (vs, r)"
          by (auto split: option.splits)
        have "length r < length (d # r0)"
          using "2.IH"(1) [OF s _ arr(2) Cons False pe] arr(1) by simp
        with le s show ?thesis by simp
      qed
    qed
  next
    case obj
    show ?thesis
    proof (cases "skip_ws cs")
      case Nil
      with "2.prems" s obj show ?thesis by simp
    next
      case (Cons d r0)
      have le: "length (d # r0) \<le> length cs" using length_skip_ws [of cs] Cons by simp
      show ?thesis
      proof (cases "d = c_rbrace")
        case True
        with "2.prems" s obj Cons have "r = r0" by simp
        with le s show ?thesis by simp
      next
        case False
        with "2.prems" s obj Cons obtain ps where pm: "parse_members n (d # r0) = Some (ps, r)"
          by (auto split: option.splits)
        have "length r < length (d # r0)"
          using "2.IH"(2) [OF s _ _ obj(3) Cons False pm] obj(1,2) by simp
        with le s show ?thesis by simp
      qed
    qed
  next
    case other
    from "2.prems" s other
    consider "strip_prefix (asc ''true'') s = Some r" 
      | "strip_prefix (asc ''false'') s = Some r"
      | "strip_prefix (asc ''null'') s = Some r"
      | lit where "parse_number s = Some (lit, r)"
      by (auto split: if_splits option.splits)
    then show ?thesis
    proof cases
      case 1 then show ?thesis using strip_prefix_length [of "asc ''true''" s r] by (simp add: asc_def)
    next
      case 2 then show ?thesis using strip_prefix_length [of "asc ''false''" s r] by (simp add: asc_def)
    next
      case 3 then show ?thesis using strip_prefix_length [of "asc ''null''" s r] by (simp add: asc_def)
    next
      case 4 then show ?thesis using parse_number_shorter by blast
    qed
  qed
next
  case (3 s)
  then show ?case by simp
next
  case (4 n s)
  from "4.prems" obtain v r1 where pv: "parse_value n s = Some (v, r1)"
    by (auto split: option.splits)
  have l1: "length r1 < length s" using "4.IH"(1) [OF pv] .
  from "4.prems" pv obtain c r2 where sk: "skip_ws r1 = c # r2"
    by (auto split: list.splits)
  have l2: "length (c # r2) \<le> length r1" using length_skip_ws [of r1] sk by simp
  show ?case
  proof (cases "c = c_comma")
    case True
    with "4.prems" pv sk obtain vs' where pe: "parse_elements n (skip_ws r2) = Some (vs', r)"
      by (auto split: option.splits)
    have "length r < length (skip_ws r2)"
      using "4.IH"(2) [OF pv refl sk True pe] .
    then show ?thesis using l1 l2 length_skip_ws [of r2] by simp
  next
    case False
    with "4.prems" pv sk have "r = r2" by (auto split: if_splits)
    then show ?thesis using l1 l2 by simp
  qed
next
  case (5 s)
  then show ?case by simp
next
  case (6 n s)
  from "6.prems" obtain q s1 where s: "s = q # s1" by (cases s) auto
  from "6.prems" s have q: "\<not> q \<noteq> c_quote" by (auto split: if_splits)
  from "6.prems" s q obtain k s2 where pk: "parse_string s1 = Some (k, s2)"
    by (auto split: option.splits)
  have l1: "length s2 < length s1" using parse_string_shorter [OF pk] .
  from "6.prems" s q pk obtain c s3 where sk: "skip_ws s2 = c # s3"
    by (auto split: list.splits)
  have l2: "length (c # s3) \<le> length s2" using length_skip_ws [of s2] sk by simp
  from "6.prems" s q pk sk have c: "\<not> c \<noteq> c_colon" by (auto split: if_splits)
  from "6.prems" s q pk sk c obtain v s4 where pv: "parse_value n (skip_ws s3) = Some (v, s4)"
    by (auto split: option.splits)
  have l3: "length s4 < length (skip_ws s3)"
    using "6.IH"(1) [OF s q pk refl sk c pv] .
  from "6.prems" s q pk sk c pv obtain d s5 where sk2: "skip_ws s4 = d # s5"
    by (auto split: list.splits)
  have l4: "length (d # s5) \<le> length s4" using length_skip_ws [of s4] sk2 by simp
  have base: "length s5 < length s"
    using s l1 l2 l3 l4 length_skip_ws [of s3] by simp
  show ?case
  proof (cases "d = c_comma")
    case True
    with "6.prems" s q pk sk c pv sk2 obtain ps' where pm: "parse_members n (skip_ws s5) = Some (ps', r)"
      by (auto split: option.splits)
    have "length r < length (skip_ws s5)"
      using "6.IH"(2) [OF s q pk refl sk c pv refl sk2 True pm] .
    then show ?thesis using base length_skip_ws [of s5] by simp
  next
    case False
    with "6.prems" s q pk sk c pv sk2 have "r = s5" by (auto split: if_splits)
    then show ?thesis using base by simp
  qed
qed

lemma value_fuel:
  "2 * length s < n \<Longrightarrow> n \<le> m \<Longrightarrow> parse_value m s = parse_value n s"
  and elements_fuel:
  "2 * length s + 1 < n \<Longrightarrow> n \<le> m \<Longrightarrow> parse_elements m s = parse_elements n s"
  and members_fuel:
  "2 * length s + 1 < n \<Longrightarrow> n \<le> m \<Longrightarrow> parse_members m s = parse_members n s"
proof (induction n s and n s and n s arbitrary: m and m and m
    rule: parse_value_parse_elements_parse_members.induct)
  case (1 s)
  then show ?case by simp
next
  case (2 n s)
  from "2.prems" obtain m' where m: "m = Suc m'" and nm: "n \<le> m'" by (cases m) auto
  show ?case
  proof (cases s)
    case Nil
    then show ?thesis by (simp add: m)
  next
    case (Cons c cs)
    have E: "parse_elements m' (d # r0) = parse_elements n (d # r0)"
      if "c \<noteq> c_quote" "c = c_lbracket" "skip_ws cs = d # r0" "d \<noteq> c_rbracket" for d r0
    proof -
      have "length (d # r0) \<le> length cs" using length_skip_ws [of cs] that(3) by simp
      then have "2 * length (d # r0) + 1 < n" using "2.prems"(1) Cons by simp
      then show ?thesis using "2.IH"(1) [OF Cons that _ nm] by simp
    qed
    have M: "parse_members m' (d # r0) = parse_members n (d # r0)"
      if "c \<noteq> c_quote" "c \<noteq> c_lbracket" "c = c_lbrace" "skip_ws cs = d # r0" "d \<noteq> c_rbrace" for d r0
    proof -
      have "length (d # r0) \<le> length cs" using length_skip_ws [of cs] that(4) by simp
      then have "2 * length (d # r0) + 1 < n" using "2.prems"(1) Cons by simp
      then show ?thesis using "2.IH"(2) [OF Cons that _ nm] by simp
    qed
    show ?thesis
    proof (cases "skip_ws cs")
      case Nil
      then show ?thesis by (simp add: m Cons)
    next
      case sk: (Cons d r0)
      show ?thesis
        using E [OF _ _ sk] M [OF _ _ _ sk]
        by (simp add: m Cons sk)
    qed
  qed
next
  case (3 s)
  then show ?case by simp
next
  case (4 n s)
  from "4.prems" obtain m' where m: "m = Suc m'" and nm: "n \<le> m'" by (cases m) auto
  have v: "parse_value m' s = parse_value n s"
    using "4.IH"(1) [OF _ nm] "4.prems"(1) by simp
  show ?case
  proof (cases "parse_value n s")
    case None
    then show ?thesis by (simp add: m v)
  next
    case (Some x)
    obtain w r1 where x: "x = (w, r1)" by (cases x)
    have l1: "length r1 < length s" using value_shorter Some x by blast
    show ?thesis
    proof (cases "skip_ws r1")
      case Nil
      then show ?thesis by (simp add: m v Some x)
    next
      case (Cons c r2)
      have l2: "length (c # r2) \<le> length r1" using length_skip_ws [of r1] Cons by simp
      show ?thesis
      proof (cases "c = c_comma")
        case True
        have "2 * length (skip_ws r2) + 1 < n"
          using "4.prems"(1) l1 l2 length_skip_ws [of r2] by simp
        then have "parse_elements m' (skip_ws r2) = parse_elements n (skip_ws r2)"
          using "4.IH"(2) [OF _ _ Cons True _ nm] Some x by simp
        then show ?thesis
          by (simp add: m v Some x Cons True)
      next
        case False
        then show ?thesis by (simp add: m v Some x Cons)
      qed
    qed
  qed
next
  case (5 s)
  then show ?case by simp
next
  case (6 n s)
  from "6.prems" obtain m' where m: "m = Suc m'" and nm: "n \<le> m'" by (cases m) auto
  show ?case
  proof (cases s)
    case Nil
    then show ?thesis by (simp add: m)
  next
    case (Cons q s1)
    show ?thesis
    proof (cases "q \<noteq> c_quote")
      case True
      then show ?thesis by (simp add: m Cons)
    next
      case q: False
      show ?thesis
      proof (cases "parse_string s1")
        case None
        then show ?thesis using q by (simp add: m Cons)
      next
        case (Some y)
        obtain k s2 where y: "y = (k, s2)" by (cases y)
        have pk: "parse_string s1 = Some (k, s2)" using Some y by simp
        have l1: "length s2 < length s1" using parse_string_shorter [OF pk] .
        show ?thesis
        proof (cases "skip_ws s2")
          case Nil
          then show ?thesis using q by (simp add: m Cons pk)
        next
          case sk: (Cons c s3)
          have l2: "length (c # s3) \<le> length s2" using length_skip_ws [of s2] sk by simp
          show ?thesis
          proof (cases "c \<noteq> c_colon")
            case True
            then show ?thesis using q by (simp add: m Cons pk sk)
          next
            case c: False
            have b1: "2 * length (skip_ws s3) < n"
              using "6.prems"(1) Cons l1 l2 length_skip_ws [of s3] by simp
            have v: "parse_value m' (skip_ws s3) = parse_value n (skip_ws s3)"
              using "6.IH"(1) [OF Cons q pk refl sk c b1 nm] .
            show ?thesis
            proof (cases "parse_value n (skip_ws s3)")
              case None
              then show ?thesis using q c by (simp add: m Cons pk sk v)
            next
              case pv': (Some z)
              obtain w s4 where z: "z = (w, s4)" by (cases z)
              have pv: "parse_value n (skip_ws s3) = Some (w, s4)" using pv' z by simp
              have l3: "length s4 < length (skip_ws s3)" using value_shorter [OF pv] .
              show ?thesis
              proof (cases "skip_ws s4")
                case Nil
                then show ?thesis using q c by (simp add: m Cons pk sk v pv)
              next
                case sk2: (Cons d s5)
                have l4: "length (d # s5) \<le> length s4" using length_skip_ws [of s4] sk2 by simp
                show ?thesis
                proof (cases "d = c_comma")
                  case True
                  have "2 * length (skip_ws s5) + 1 < n"
                    using "6.prems"(1) Cons l1 l2 l3 l4 length_skip_ws [of s3] length_skip_ws [of s5]
                    by simp
                  then have "parse_members m' (skip_ws s5) = parse_members n (skip_ws s5)"
                    using "6.IH"(2) [OF Cons q pk refl sk c pv refl sk2 True _ nm] by simp
                  then show ?thesis
                    using q c by (simp add: m Cons pk sk v pv sk2 True)
                next
                  case False
                  then show ?thesis using q c by (simp add: m Cons pk sk v pv sk2)
                qed
              qed
            qed
          qed
        qed
      qed
    qed
  qed
qed

text \<open>
  The bound that \<open>JSON_parse\<close> gives the descent is never reached: a larger bound gives
  the same result on every text.
\<close>

lemma JSON_parse_bound:
  "2 * length s + 2 \<le> m \<Longrightarrow>
   parse_value m (skip_ws s) = parse_value (2 * length s + 2) (skip_ws s)"
proof -
  assume "2 * length s + 2 \<le> m"
  moreover have "2 * length (skip_ws s) < 2 * length s + 2"
    using length_skip_ws [of s] by simp
  ultimately show ?thesis by (rule value_fuel [rotated])
qed

end
